theory Spec2Isabelle
  imports Main "HOL-Library.Multiset"
begin

section \<open>Data model (part\_000: ServerInfo, CheckResult, Config)\<close>

text \<open>
  Go strings are byte sequences, so a Go \<open>string\<close> is a \<open>char list\<close> holding its UTF-8
  bytes.  Go's \<open>int\<close> and \<open>time.Duration\<close> (nanoseconds) are modelled as \<open>int\<close>; no
  arithmetic of the program leaves the 64-bit range (the only arithmetic is \<open>i++\<close> below
  \<open>RetryCount\<close> and counters bounded by the number of records).
\<close>

record ServerInfo =
  AppName :: string
  ServerIP :: string
  ServerID :: int
  ServerPort :: int

record CheckResult =
  ServerInfo :: ServerInfo
  IsSuccess :: bool
  Error :: string
  CheckTime :: int
  Duration :: int

record Config =
  Timeout :: int
  ConcurrentLimit :: int
  RetryCount :: int
  RetryDelay :: int

definition Second :: int where
  "Second = 1000000000"

definition DefaultConfig :: Config where
  "DefaultConfig =
     \<lparr>Timeout = 5 * Second, ConcurrentLimit = 10, RetryCount = 3, RetryDelay = Second\<rparr>"

section \<open>Library functions used by the program\<close>

text \<open>\<open>strings.Contains s sub\<close>: \<open>sub\<close> occurs in \<open>s\<close> as a contiguous run of bytes.\<close>

fun strings_Contains :: "string \<Rightarrow> string \<Rightarrow> bool" where
  "strings_Contains [] sub = (sub = [])"
| "strings_Contains (c # cs) sub =
     (take (length sub) (c # cs) = sub \<or> strings_Contains cs sub)"

text \<open>\<open>strings.HasPrefix\<close> and \<open>strings.HasSuffix\<close>.\<close>

definition strings_HasPrefix :: "string \<Rightarrow> string \<Rightarrow> bool" where
  "strings_HasPrefix s p = (take (length p) s = p)"

definition strings_HasSuffix :: "string \<Rightarrow> string \<Rightarrow> bool" where
  "strings_HasSuffix s p = (length p \<le> length s \<and> drop (length s - length p) s = p)"

text \<open>The verb \<open>%d\<close> of \<open>fmt\<close> on an \<open>int\<close>: decimal digits, with a leading minus sign.\<close>

definition digit_char :: "nat \<Rightarrow> char" where
  "digit_char d = ''0123456789'' ! d"

fun digits_of :: "nat \<Rightarrow> string" where
  "digits_of n =
     (if n < 10 then [digit_char n]
      else digits_of (n div 10) @ [digit_char (n mod 10)])"

declare digits_of.simps [simp del]

definition itoa :: "int \<Rightarrow> string" where
  "itoa k = (if k < 0 then CHR ''-'' # digits_of (nat (- k)) else digits_of (nat k))"

section \<open>The network as seen by one probe\<close>

text \<open>
  What \<open>checkConnectivity\<close> reads from outside: the resolver, the dialer, the clock and the
  cancellation context.  \<open>LookupIP h\<close> is the answer of \<open>net.LookupIP\<close> (the error text, or
  the addresses already rendered by \<open>IP.String()\<close>); \<open>DialTimeout k addr t\<close> is the answer
  of the \<open>k\<close>-th call of \<open>net.DialTimeout("tcp", addr, t)\<close> together with the value of
  \<open>time.Since(start)\<close> measured around it; \<open>ctxDone k\<close> tells whether the \<open>select\<close> before
  attempt \<open>k\<close> takes the branch \<open>ctx.Done()\<close> rather than the timer; \<open>Now\<close> is
  \<open>time.Now()\<close> on entry.
\<close>

record net_env =
  LookupIP :: "string \<Rightarrow> string + string list"
  DialTimeout :: "nat \<Rightarrow> string \<Rightarrow> int \<Rightarrow> string option \<times> int"
  ctxDone :: "nat \<Rightarrow> bool"
  Now :: int

text \<open>The calls a probe makes, in order.\<close>

datatype event =
    EvLookup string
  | EvWait int
  | EvDial string int
  | EvClose

datatype panic = NilDereference | IndexOutOfRange

datatype 'a outcome = Returned 'a | Panicked panic

fun is_dial :: "event \<Rightarrow> bool" where
  "is_dial (EvDial a t) = True"
| "is_dial e = False"

fun is_lookup :: "event \<Rightarrow> bool" where
  "is_lookup (EvLookup h) = True"
| "is_lookup e = False"

definition dial_attempts :: "event list \<Rightarrow> nat" where
  "dial_attempts tr = length (filter is_dial tr)"

definition lookups :: "event list \<Rightarrow> nat" where
  "lookups tr = length (filter is_lookup tr)"

section \<open>checkConnectivity (part\_000, lines 345--388)\<close>

text \<open>The literal of line 357 up to its verb: the bytes \<open>DNS\<close>, four CJK characters
  (``resolution failed''), a colon and a space.\<close>

definition msg_dns_failed :: string where
  "msg_dns_failed =
     ''DNS'' @ [CHR 0xE8, CHR 0xA7, CHR 0xA3, CHR 0xE6, CHR 0x9E, CHR 0x90,
                CHR 0xE5, CHR 0xA4, CHR 0xB1, CHR 0xE8, CHR 0xB4, CHR 0xA5] @ '': ''"

text \<open>The literal of line 368 (``operation cancelled''), five CJK characters.\<close>

definition msg_cancelled :: string where
  "msg_cancelled =
     [CHR 0xE6, CHR 0x93, CHR 0x8D, CHR 0xE4, CHR 0xBD, CHR 0x9C, CHR 0xE8, CHR 0xA2, CHR 0xAB,
      CHR 0xE5, CHR 0x8F, CHR 0x96, CHR 0xE6, CHR 0xB6, CHR 0x88]"

text \<open>The address of line 375, \<open>fmt.Sprintf("%s:%d", ip, info.ServerPort)\<close>.\<close>

definition dial_addr :: "string \<Rightarrow> ServerInfo \<Rightarrow> string" where
  "dial_addr ip info = ip @ '':'' @ itoa (ServerPort info)"

text \<open>
  The loop of lines 363--387, entered with the loop variable \<open>i\<close>, the result built so far,
  \<open>lastErr\<close> (\<open>None\<close> is the nil error) and the calls made so far.  Falling out of the loop
  with \<open>lastErr = nil\<close> evaluates \<open>lastErr.Error()\<close> on a nil interface, which panics.
\<close>

function retry_loop ::
  "net_env \<Rightarrow> ServerInfo \<Rightarrow> Config \<Rightarrow> string \<Rightarrow> int \<Rightarrow> CheckResult \<Rightarrow> string option \<Rightarrow>
   event list \<Rightarrow> CheckResult outcome \<times> event list" where
  "retry_loop env info config ip i result lastErr tr =
     (if i < RetryCount config then
        (if 0 < i \<and> ctxDone env (nat i) then
           (Returned (result\<lparr>Error := msg_cancelled\<rparr>), tr @ [EvWait (RetryDelay config)])
         else
           (let tr1 = (if 0 < i then tr @ [EvWait (RetryDelay config)] else tr);
                addr = dial_addr ip info;
                answer = DialTimeout env (nat i) addr (Timeout config);
                result1 = result\<lparr>Duration := snd answer\<rparr>;
                tr2 = tr1 @ [EvDial addr (Timeout config)]
            in (case fst answer of
                  None \<Rightarrow> (Returned (result1\<lparr>IsSuccess := True\<rparr>), tr2 @ [EvClose])
                | Some err \<Rightarrow> retry_loop env info config ip (i + 1) result1 (Some err) tr2)))
      else
        (case lastErr of
           None \<Rightarrow> (Panicked NilDereference, tr)
         | Some err \<Rightarrow> (Returned (result\<lparr>Error := err\<rparr>), tr)))"
  by pat_completeness auto
termination
  by (relation "measure (\<lambda>(env, info, config, ip, i, result, lastErr, tr). nat (RetryCount config - i))")
     auto

declare retry_loop.simps [simp del]

text \<open>
  Lines 346--361, then the loop.  \<open>ips[0]\<close> on an empty answer is an index out of range.
\<close>

definition checkConnectivity ::
  "net_env \<Rightarrow> ServerInfo \<Rightarrow> Config \<Rightarrow> CheckResult outcome \<times> event list" where
  "checkConnectivity env info config =
     (let result = \<lparr>ServerInfo = info, IsSuccess = False, Error = [], CheckTime = Now env,
                     Duration = 0\<rparr>
      in if \<not> strings_Contains (ServerIP info) ''.'' then
           (case LookupIP env (ServerIP info) of
              Inl err \<Rightarrow>
                (Returned (result\<lparr>Error := msg_dns_failed @ err\<rparr>), [EvLookup (ServerIP info)])
            | Inr ips \<Rightarrow>
                (case ips of
                   [] \<Rightarrow> (Panicked IndexOutOfRange, [EvLookup (ServerIP info)])
                 | ip0 # rest \<Rightarrow>
                     retry_loop env info config ip0 0 result None [EvLookup (ServerIP info)]))
         else retry_loop env info config (ServerIP info) 0 result None [])"

section \<open>The operating system and the library, as the program sees them\<close>

text \<open>
  Library functions whose code is not part of the repository are parameters of the model:
  \<open>strings.TrimSpace\<close>, \<open>strconv.Atoi\<close> (the error text, or the value),
  \<open>filepath.Join\<close> of two elements, \<open>Time.Format\<close> (layout, time) and the text of a
  \<open>time.Duration\<close> under the verb \<open>%v\<close>.  Every property below holds for all of their
  behaviours.
\<close>

record golib =
  TrimSpace :: "string \<Rightarrow> string"
  Atoi :: "string \<Rightarrow> string + int"
  Join :: "string \<Rightarrow> string \<Rightarrow> string"
  FormatTime :: "string \<Rightarrow> int \<Rightarrow> string"
  DurationString :: "int \<Rightarrow> string"

record dir_entry =
  Name :: string
  IsDir :: bool

text \<open>
  The world of one run of \<open>main\<close>.  \<open>ReadDir\<close> is \<open>os.ReadDir\<close>; \<open>OpenScan p\<close> is
  \<open>os.Open p\<close> followed by the scanner: the error of the open, or the lines the scanner
  yields and the final \<open>scanner.Err()\<close>; \<open>CreateFile\<close> is the error of \<open>os.Create\<close>, if
  any; \<open>LogWriteFails k\<close> tells whether the \<open>k\<close>-th \<open>Fprintln\<close> to the log file returns
  an error; \<open>NowLog\<close> is \<open>time.Now()\<close> of line 424 and \<open>TotalElapsed\<close> is
  \<open>time.Since(startTime)\<close> of line 477; \<open>net i\<close> is the network and the clock that the
  probe of record \<open>i\<close> meets.
\<close>

record world =
  Args :: "string list"
  lib :: golib
  ReadDir :: "string \<Rightarrow> string + dir_entry list"
  OpenScan :: "string \<Rightarrow> string + (string list \<times> string option)"
  CreateFile :: "string \<Rightarrow> string option"
  LogWriteFails :: "nat \<Rightarrow> bool"
  NowLog :: int
  TotalElapsed :: int
  net :: "nat \<Rightarrow> net_env"

definition newline :: string where
  "newline = [CHR 0x0A]"

text \<open>\<open>strings.SplitN(s, ":", 2)\<close>: the text before and after the first colon, or \<open>s\<close>
  alone when it has no colon.\<close>

definition strings_SplitN_colon_2 :: "string \<Rightarrow> string list" where
  "strings_SplitN_colon_2 s =
     (if CHR '':'' \<in> set s
      then [takeWhile (\<lambda>c. c \<noteq> CHR '':'') s, tl (dropWhile (\<lambda>c. c \<noteq> CHR '':'') s)]
      else [s])"

text \<open>\<open>strings.Trim(s, cutset)\<close> for a cutset of ASCII characters.\<close>

definition strings_Trim :: "string \<Rightarrow> string \<Rightarrow> string" where
  "strings_Trim s cutset =
     rev (dropWhile (\<lambda>c. c \<in> set cutset) (rev (dropWhile (\<lambda>c. c \<in> set cutset) s)))"

section \<open>parseServerInfo (part\_000, lines 260--314)\<close>

text \<open>The message literals, as UTF-8 bytes, up to their first verb.\<close>

definition msg_open_failed :: string where
  "msg_open_failed =
     [CHR 0xE6, CHR 0x97, CHR 0xA0, CHR 0xE6, CHR 0xB3, CHR 0x95, CHR 0xE6, CHR 0x89, CHR 0x93,
      CHR 0xE5, CHR 0xBC, CHR 0x80, CHR 0xE9, CHR 0x85, CHR 0x8D, CHR 0xE7, CHR 0xBD, CHR 0xAE,
      CHR 0xE6, CHR 0x96, CHR 0x87, CHR 0xE4, CHR 0xBB, CHR 0xB6] @ '' ''"

definition msg_parse_prefix :: string where
  "msg_parse_prefix = [CHR 0xE8, CHR 0xA7, CHR 0xA3, CHR 0xE6, CHR 0x9E, CHR 0x90]"

definition msg_failed_word :: string where
  "msg_failed_word = [CHR 0xE5, CHR 0xA4, CHR 0xB1, CHR 0xE8, CHR 0xB4, CHR 0xA5]"

definition msg_scan_failed :: string where
  "msg_scan_failed =
     [CHR 0xE8, CHR 0xAF, CHR 0xBB, CHR 0xE5, CHR 0x8F, CHR 0x96, CHR 0xE9, CHR 0x85, CHR 0x8D,
      CHR 0xE7, CHR 0xBD, CHR 0xAE, CHR 0xE6, CHR 0x96, CHR 0x87, CHR 0xE4, CHR 0xBB, CHR 0xB6,
      CHR 0xE5, CHR 0x87, CHR 0xBA, CHR 0xE9, CHR 0x94, CHR 0x99] @ '' ''"

definition empty_info :: ServerInfo where
  "empty_info = \<lparr>AppName = [], ServerIP = [], ServerID = 0, ServerPort = 0\<rparr>"

text \<open>
  The scanner loop of lines 272--307 over the lines still to come, with \<open>serverInfos\<close> and
  \<open>currentInfo\<close>.  A failing \<open>Atoi\<close> returns the error at once.
\<close>

fun parse_lines ::
  "golib \<Rightarrow> string list \<Rightarrow> ServerInfo list \<Rightarrow> ServerInfo \<Rightarrow> string + ServerInfo list" where
  "parse_lines l [] serverInfos currentInfo = Inr serverInfos"
| "parse_lines l (text # rest) serverInfos currentInfo =
     (let line = TrimSpace l text in
      if line = [] \<or> strings_HasPrefix line ''#'' then
        parse_lines l rest serverInfos currentInfo
      else
        (let parts = strings_SplitN_colon_2 line in
         if length parts \<noteq> 2 then parse_lines l rest serverInfos currentInfo
         else
           (let key = TrimSpace l (parts ! 0);
                val = strings_Trim (TrimSpace l (parts ! 1)) [CHR 0x22]
            in if key = ''appName'' then
                 parse_lines l rest serverInfos (currentInfo\<lparr>AppName := val\<rparr>)
               else if key = ''serverIP'' then
                 parse_lines l rest serverInfos (currentInfo\<lparr>ServerIP := val\<rparr>)
               else if key = ''serverID'' then
                 (case Atoi l val of
                    Inl err \<Rightarrow>
                      Inl (msg_parse_prefix @ '' serverID '' @ msg_failed_word @ '' '' @ val @
                           '': '' @ err)
                  | Inr n \<Rightarrow> parse_lines l rest serverInfos (currentInfo\<lparr>ServerID := n\<rparr>))
               else if key = ''serverPort'' then
                 (case Atoi l val of
                    Inl err \<Rightarrow>
                      Inl (msg_parse_prefix @ '' serverPort '' @ msg_failed_word @ '' '' @ val @
                           '': '' @ err)
                  | Inr port \<Rightarrow>
                      parse_lines l rest (serverInfos @ [currentInfo\<lparr>ServerPort := port\<rparr>])
                        empty_info)
               else parse_lines l rest serverInfos currentInfo)))"

definition parseServerInfo :: "world \<Rightarrow> string \<Rightarrow> string + ServerInfo list" where
  "parseServerInfo w filePath =
     (case OpenScan w filePath of
        Inl err \<Rightarrow> Inl (msg_open_failed @ filePath @ '': '' @ err)
      | Inr (lines, scanErr) \<Rightarrow>
          (case parse_lines (lib w) lines [] empty_info of
             Inl err \<Rightarrow> Inl err
           | Inr serverInfos \<Rightarrow>
               (case scanErr of
                  Some err \<Rightarrow> Inl (msg_scan_failed @ filePath @ '': '' @ err)
                | None \<Rightarrow> Inr serverInfos)))"

section \<open>parseAllConfigFiles (part\_000, lines 316--343)\<close>

definition msg_readdir_failed :: string where
  "msg_readdir_failed =
     [CHR 0xE8, CHR 0xAF, CHR 0xBB, CHR 0xE5, CHR 0x8F, CHR 0x96, CHR 0xE7, CHR 0x9B, CHR 0xAE,
      CHR 0xE5, CHR 0xBD, CHR 0x95, CHR 0xE5, CHR 0xA4, CHR 0xB1, CHR 0xE8, CHR 0xB4, CHR 0xA5]
     @ '' ''"

text \<open>The warning of line 332 for a file and its error, with its newline.\<close>

definition msg_warning :: "string \<Rightarrow> string \<Rightarrow> string" where
  "msg_warning filePath err =
     [CHR 0xE8, CHR 0xAD, CHR 0xA6, CHR 0xE5, CHR 0x91, CHR 0x8A] @ '': '' @
     [CHR 0xE8, CHR 0xA7, CHR 0xA3, CHR 0xE6, CHR 0x9E, CHR 0x90, CHR 0xE6, CHR 0x96, CHR 0x87,
      CHR 0xE4, CHR 0xBB, CHR 0xB6] @ '' '' @ filePath @ '' '' @
     [CHR 0xE5, CHR 0xA4, CHR 0xB1, CHR 0xE8, CHR 0xB4, CHR 0xA5] @ '': '' @ err @ newline"

text \<open>The error of line 339 for a directory.\<close>

definition msg_no_config :: "string \<Rightarrow> string" where
  "msg_no_config folderPath =
     [CHR 0xE6, CHR 0x9C, CHR 0xAA, CHR 0xE5, CHR 0x9C, CHR 0xA8, CHR 0xE7, CHR 0x9B, CHR 0xAE,
      CHR 0xE5, CHR 0xBD, CHR 0x95] @ '' '' @ folderPath @ '' '' @
     [CHR 0xE4, CHR 0xB8, CHR 0xAD, CHR 0xE6, CHR 0x89, CHR 0xBE, CHR 0xE5, CHR 0x88, CHR 0xB0,
      CHR 0xE6, CHR 0x9C, CHR 0x89, CHR 0xE6, CHR 0x95, CHR 0x88, CHR 0xE7, CHR 0x9A, CHR 0x84,
      CHR 0xE9, CHR 0x85, CHR 0x8D, CHR 0xE7, CHR 0xBD, CHR 0xAE]"

text \<open>
  The loop of lines 324--336 over the entries still to come, with \<open>allServerInfos\<close> and
  what has been printed.
\<close>

fun parse_entries ::
  "world \<Rightarrow> string \<Rightarrow> dir_entry list \<Rightarrow> ServerInfo list \<Rightarrow> string list \<Rightarrow>
   ServerInfo list \<times> string list" where
  "parse_entries w folderPath [] allServerInfos out = (allServerInfos, out)"
| "parse_entries w folderPath (entry # rest) allServerInfos out =
     (if IsDir entry \<or> \<not> strings_HasSuffix (Name entry) ''.conf'' then
        parse_entries w folderPath rest allServerInfos out
      else
        (let filePath = Join (lib w) folderPath (Name entry) in
         case parseServerInfo w filePath of
           Inl err \<Rightarrow>
             parse_entries w folderPath rest allServerInfos (out @ [msg_warning filePath err])
         | Inr infos \<Rightarrow> parse_entries w folderPath rest (allServerInfos @ infos) out))"

text \<open>The result and what the call printed.\<close>

definition parseAllConfigFiles :: "world \<Rightarrow> string \<Rightarrow> (string + ServerInfo list) \<times> string list" where
  "parseAllConfigFiles w folderPath =
     (case ReadDir w folderPath of
        Inl err \<Rightarrow> (Inl (msg_readdir_failed @ folderPath @ '': '' @ err), [])
      | Inr entries \<Rightarrow>
          (let parsed = parse_entries w folderPath entries [] [] in
           if length (fst parsed) = 0 then (Inl (msg_no_config folderPath), snd parsed)
           else (Inr (fst parsed), snd parsed)))"

section \<open>parseAllConfigFiles of the earlier variant (checkip3.go, lines 22--46)\<close>

text \<open>
  The earlier variant stops at the first file that fails and has no check for an empty
  result.  Its \<open>parseServerInfo\<close> is not in that file, so it is the parameter \<open>parse\<close>.
\<close>

fun parse_entries3 ::
  "(string \<Rightarrow> string + ServerInfo list) \<Rightarrow> string \<Rightarrow> dir_entry list \<Rightarrow> ServerInfo list \<Rightarrow>
   string + ServerInfo list" where
  "parse_entries3 parse folderPath [] serverInfos = Inr serverInfos"
| "parse_entries3 parse folderPath (entry # rest) serverInfos =
     (if IsDir entry \<or> \<not> strings_HasSuffix (Name entry) ''.conf'' then
        parse_entries3 parse folderPath rest serverInfos
      else
        (let filePath = folderPath @ ''/'' @ Name entry in
         case parse filePath of
           Inl err \<Rightarrow> Inl (''error parsing file '' @ filePath @ '': '' @ err)
         | Inr infos \<Rightarrow> parse_entries3 parse folderPath rest (serverInfos @ infos)))"

definition parseAllConfigFiles3 ::
  "(string \<Rightarrow> string + dir_entry list) \<Rightarrow> (string \<Rightarrow> string + ServerInfo list) \<Rightarrow> string \<Rightarrow>
   string + ServerInfo list" where
  "parseAllConfigFiles3 readDir parse folderPath =
     (case readDir folderPath of
        Inl err \<Rightarrow> Inl (''failed to read directory: '' @ err)
      | Inr entries \<Rightarrow> parse_entries3 parse folderPath entries [])"

section \<open>formatResult (part\_000, lines 390--404)\<close>

definition msg_success :: string where
  "msg_success = [CHR 0xE6, CHR 0x88, CHR 0x90, CHR 0xE5, CHR 0x8A, CHR 0x9F]"

text \<open>The format of line 396, its CJK labels given as UTF-8 bytes.\<close>

definition formatResult :: "golib \<Rightarrow> CheckResult \<Rightarrow> string" where
  "formatResult l result =
     (let status = (if \<not> IsSuccess result
                    then msg_failed_word @ '' ('' @ Error result @ '')''
                    else msg_success)
      in ''['' @ FormatTime l ''2006-01-02 15:04:05'' (CheckTime result) @ ''] '' @
         [CHR 0xE6, CHR 0x9C, CHR 0x8D, CHR 0xE5, CHR 0x8A, CHR 0xA1, CHR 0xE5, CHR 0x99, CHR 0xA8] @
         ''ID: '' @ itoa (ServerID (ServerInfo result)) @ '', '' @
         [CHR 0xE5, CHR 0xBA, CHR 0x94, CHR 0xE7, CHR 0x94, CHR 0xA8] @ '': '' @
         AppName (ServerInfo result) @ '', IP: '' @ ServerIP (ServerInfo result) @ '', '' @
         [CHR 0xE7, CHR 0xAB, CHR 0xAF, CHR 0xE5, CHR 0x8F, CHR 0xA3] @ '': '' @
         itoa (ServerPort (ServerInfo result)) @ '', '' @
         [CHR 0xE8, CHR 0x80, CHR 0x97, CHR 0xE6, CHR 0x97, CHR 0xB6] @ '': '' @
         DurationString l (Duration result) @ '', '' @
         [CHR 0xE7, CHR 0x8A, CHR 0xB6, CHR 0xE6, CHR 0x80, CHR 0x81] @ '': '' @ status)"

section \<open>main (part\_000, lines 406--487)\<close>

text \<open>The messages of lines 408, 419, 427, 442 and 478.\<close>

definition msg_usage :: string where
  "msg_usage =
     [CHR 0xE7, CHR 0x94, CHR 0xA8, CHR 0xE6, CHR 0xB3, CHR 0x95] @ '': ./program <'' @
     [CHR 0xE9, CHR 0x85, CHR 0x8D, CHR 0xE7, CHR 0xBD, CHR 0xAE, CHR 0xE6, CHR 0x96, CHR 0x87,
      CHR 0xE4, CHR 0xBB, CHR 0xB6, CHR 0xE5, CHR 0xA4, CHR 0xB9, CHR 0xE8, CHR 0xB7, CHR 0xAF,
      CHR 0xE5, CHR 0xBE, CHR 0x84] @ ''>''"

definition msg_config_failed :: "string \<Rightarrow> string" where
  "msg_config_failed err =
     [CHR 0xE8, CHR 0xA7, CHR 0xA3, CHR 0xE6, CHR 0x9E, CHR 0x90, CHR 0xE9, CHR 0x85, CHR 0x8D,
      CHR 0xE7, CHR 0xBD, CHR 0xAE, CHR 0xE6, CHR 0x96, CHR 0x87, CHR 0xE4, CHR 0xBB, CHR 0xB6,
      CHR 0xE5, CHR 0xA4, CHR 0xB1, CHR 0xE8, CHR 0xB4, CHR 0xA5] @ '': '' @ err @ newline"

definition msg_create_failed :: "string \<Rightarrow> string" where
  "msg_create_failed err =
     [CHR 0xE5, CHR 0x88, CHR 0x9B, CHR 0xE5, CHR 0xBB, CHR 0xBA, CHR 0xE6, CHR 0x97, CHR 0xA5,
      CHR 0xE5, CHR 0xBF, CHR 0x97, CHR 0xE6, CHR 0x96, CHR 0x87, CHR 0xE4, CHR 0xBB, CHR 0xB6,
      CHR 0xE5, CHR 0xA4, CHR 0xB1, CHR 0xE8, CHR 0xB4, CHR 0xA5] @ '': '' @ err @ newline"

definition msg_start :: "int \<Rightarrow> string" where
  "msg_start n =
     [CHR 0xE5, CHR 0xBC, CHR 0x80, CHR 0xE5, CHR 0xA7, CHR 0x8B, CHR 0xE6, CHR 0xA3, CHR 0x80,
      CHR 0xE6, CHR 0x9F, CHR 0xA5] @ '' '' @ itoa n @ '' '' @
     [CHR 0xE4, CHR 0xB8, CHR 0xAA, CHR 0xE6, CHR 0x9C, CHR 0x8D, CHR 0xE5, CHR 0x8A, CHR 0xA1,
      CHR 0xE5, CHR 0x99, CHR 0xA8, CHR 0xE7, CHR 0x9A, CHR 0x84, CHR 0xE8, CHR 0xBF, CHR 0x9E,
      CHR 0xE9, CHR 0x80, CHR 0x9A, CHR 0xE6, CHR 0x80, CHR 0xA7] @ ''...'' @ newline"

definition summary_text :: "golib \<Rightarrow> int \<Rightarrow> int \<Rightarrow> int \<Rightarrow> int \<Rightarrow> string \<Rightarrow> string" where
  "summary_text l n_total n_success n_fail duration logName =
     newline @
     [CHR 0xE6, CHR 0xA3, CHR 0x80, CHR 0xE6, CHR 0x9F, CHR 0xA5, CHR 0xE5, CHR 0xAE, CHR 0x8C,
      CHR 0xE6, CHR 0x88, CHR 0x90, CHR 0xEF, CHR 0xBC, CHR 0x81] @ newline @
     [CHR 0xE6, CHR 0x80, CHR 0xBB, CHR 0xE8, CHR 0xAE, CHR 0xA1] @ '': '' @ itoa n_total @ newline @
     [CHR 0xE6, CHR 0x88, CHR 0x90, CHR 0xE5, CHR 0x8A, CHR 0x9F] @ '': '' @ itoa n_success @
     newline @
     [CHR 0xE5, CHR 0xA4, CHR 0xB1, CHR 0xE8, CHR 0xB4, CHR 0xA5] @ '': '' @ itoa n_fail @
     newline @
     [CHR 0xE6, CHR 0x80, CHR 0xBB, CHR 0xE8, CHR 0x80, CHR 0x97, CHR 0xE6, CHR 0x97, CHR 0xB6] @
     '': '' @ DurationString l duration @ newline @
     [CHR 0xE7, CHR 0xBB, CHR 0x93, CHR 0xE6, CHR 0x9E, CHR 0x9C, CHR 0xE5, CHR 0xB7, CHR 0xB2,
      CHR 0xE4, CHR 0xBF, CHR 0x9D, CHR 0xE5, CHR 0xAD, CHR 0x98, CHR 0xE8, CHR 0x87, CHR 0xB3] @
     '': '' @ logName"

text \<open>
  The program is the main goroutine, one goroutine per record and the goroutine that
  closes the channel.  Each has a program counter; a step of the program is a step of
  one of them, chosen by the scheduler.

  A worker (lines 446--453) is at \<open>semaphore <- struct{}{}\<close> (\<open>WAcquire\<close>), at the call
  of \<open>checkConnectivity\<close> (\<open>WProbe\<close>), at \<open>results <- result\<close> (\<open>WSend\<close>), at the
  deferred \<open><-semaphore\<close> (\<open>WRelease\<close>), at the deferred \<open>wg.Done()\<close> (\<open>WDone\<close>; the
  deferred calls run in reverse order of their \<open>defer\<close>), or finished.
\<close>

datatype worker_pc =
    WNotStarted
  | WAcquire
  | WProbe
  | WSend CheckResult
  | WRelease
  | WDone
  | WFinished

text \<open>
  \<open>main\<close> is before line 407 (\<open>MStart\<close>), in the loop of line 444 about to launch the
  record of the given index (\<open>MLaunch\<close>; past the last one it starts the closing
  goroutine of line 457), in the loop of line 464 (\<open>MDrain\<close>), returned early from
  lines 409, 420 or 428 (\<open>MAborted\<close>), or returned after the summary (\<open>MReturned\<close>).
\<close>

datatype main_pc = MStart | MLaunch nat | MDrain | MAborted | MReturned

text \<open>The closing goroutine is at \<open>wg.Wait()\<close>, at \<open>close(results)\<close>, or finished.\<close>

datatype watcher_pc = WatchNotStarted | WatchWait | WatchClose | WatchFinished

datatype tid = TMain | TWorker nat | TWatcher

text \<open>
  The state of the process.  \<open>wg\<close> is the counter of the wait group, \<open>sem\<close> the number of
  tokens in the channel \<open>semaphore\<close>, \<open>results\<close> the buffer of the channel \<open>results\<close>,
  \<open>received\<close> the values the loop of line 464 has taken so far, \<open>net_log\<close> the network
  calls made so far, \<open>exit_code\<close> the exit status once the process has ended.
\<close>

record state =
  mpc :: main_pc
  infos :: "ServerInfo list"
  workers :: "worker_pc list"
  watcher :: watcher_pc
  wg :: nat
  sem :: nat
  results :: "CheckResult list"
  chan_closed :: bool
  received :: "CheckResult list"
  successCount :: int
  failCount :: int
  console :: "string list"
  logfile :: "string list"
  logWrites :: nat
  logFileName :: string
  net_log :: "event list"
  exit_code :: "int option"

definition init_state :: state where
  "init_state =
     \<lparr>mpc = MStart, infos = [], workers = [], watcher = WatchNotStarted, wg = 0, sem = 0,
      results = [], chan_closed = False, received = [], successCount = 0, failCount = 0,
      console = [], logfile = [], logWrites = 0, logFileName = [], net_log = [],
      exit_code = None\<rparr>"

text \<open>\<open>fmt.Fprintln(logFile, text)\<close>; its error is not looked at (lines 473 and 486).\<close>

definition write_log :: "world \<Rightarrow> string \<Rightarrow> state \<Rightarrow> state" where
  "write_log w text s =
     s\<lparr>logfile := (if LogWriteFails w (logWrites s) then logfile s
                     else logfile s @ [text @ newline]),
        logWrites := Suc (logWrites s)\<rparr>"

text \<open>The name of line 424.\<close>

definition log_name :: "world \<Rightarrow> string" where
  "log_name w =
     ''connectinfo_'' @ FormatTime (lib w) ''2006-01-02_150405'' (NowLog w) @ ''.log''"

text \<open>Lines 406--442: returning from \<open>main\<close> ends the process with status 0.\<close>

definition startup :: "world \<Rightarrow> state \<Rightarrow> state" where
  "startup w s =
     (if length (Args w) < 2 then
        s\<lparr>console := console s @ [msg_usage @ newline], mpc := MAborted, exit_code := Some 0\<rparr>
      else
        (let configFolderPath = Args w ! 1;
             parsed = parseAllConfigFiles w configFolderPath;
             s1 = s\<lparr>console := console s @ snd parsed\<rparr>
         in case fst parsed of
              Inl err \<Rightarrow>
                s1\<lparr>console := console s1 @ [msg_config_failed err], mpc := MAborted,
                    exit_code := Some 0\<rparr>
            | Inr serverInfos \<Rightarrow>
                (let name = log_name w
                 in case CreateFile w name of
                      Some err \<Rightarrow>
                        s1\<lparr>console := console s1 @ [msg_create_failed err], mpc := MAborted,
                            exit_code := Some 0\<rparr>
                    | None \<Rightarrow>
                        s1\<lparr>infos := serverInfos,
                            workers := replicate (length serverInfos) WNotStarted,
                            logFileName := name,
                            console := console s1 @ [msg_start (int (length serverInfos))],
                            mpc := MLaunch 0\<rparr>)))"

text \<open>The body of the loop of line 464 for one received result.\<close>

definition consume :: "world \<Rightarrow> CheckResult \<Rightarrow> state \<Rightarrow> state" where
  "consume w result s =
     (let s1 = (if IsSuccess result then s\<lparr>successCount := successCount s + 1\<rparr>
                else s\<lparr>failCount := failCount s + 1\<rparr>);
          resultStr = formatResult (lib w) result;
          s2 = s1\<lparr>console := console s1 @ [resultStr @ newline]\<rparr>
      in (write_log w resultStr s2)\<lparr>received := received s @ [result]\<rparr>)"

text \<open>Lines 476--487, after the loop.\<close>

definition finish :: "world \<Rightarrow> state \<Rightarrow> state" where
  "finish w s =
     (let summary = summary_text (lib w) (int (length (infos s))) (successCount s) (failCount s)
                      (TotalElapsed w) (logFileName s);
          s1 = s\<lparr>console := console s @ [summary @ newline]\<rparr>
      in (write_log w summary s1)\<lparr>mpc := MReturned, exit_code := Some 0\<rparr>)"

text \<open>
  One step of \<open>main\<close>.  Receiving from \<open>results\<close> blocks (\<open>None\<close>) while the buffer is
  empty and the channel is open.
\<close>

definition main_step :: "world \<Rightarrow> state \<Rightarrow> state option" where
  "main_step w s =
     (case mpc s of
        MStart \<Rightarrow> Some (startup w s)
      | MLaunch i \<Rightarrow>
          (if i < length (infos s)
           then Some (s\<lparr>wg := wg s + 1, workers := (workers s)[i := WAcquire],
                        mpc := MLaunch (i + 1)\<rparr>)
           else Some (s\<lparr>watcher := WatchWait, mpc := MDrain\<rparr>))
      | MDrain \<Rightarrow>
          (case results s of
             result # rest \<Rightarrow> Some (consume w result (s\<lparr>results := rest\<rparr>))
           | [] \<Rightarrow> (if chan_closed s then Some (finish w s) else None))
      | MAborted \<Rightarrow> None
      | MReturned \<Rightarrow> None)"

text \<open>
  The context handed to the probes is cancelled only by the deferred \<open>cancel()\<close> of line
  434, when \<open>main\<close> returns; while the process runs \<open>ctx.Done()\<close> is never ready.
\<close>

definition probe_env :: "world \<Rightarrow> nat \<Rightarrow> net_env" where
  "probe_env w i = (net w i)\<lparr>ctxDone := (\<lambda>k. False)\<rparr>"

definition probe :: "world \<Rightarrow> ServerInfo list \<Rightarrow> nat \<Rightarrow> CheckResult outcome \<times> event list" where
  "probe w serverInfos i = checkConnectivity (probe_env w i) (serverInfos ! i) DefaultConfig"

text \<open>
  One step of the worker of record \<open>i\<close>.  Sending to a full channel and receiving from an
  empty one block.  A panic in \<open>checkConnectivity\<close> and a \<open>wg.Done()\<close> on a zero counter
  end the process with status 2.
\<close>

definition worker_step :: "world \<Rightarrow> nat \<Rightarrow> state \<Rightarrow> state option" where
  "worker_step w i s =
     (if i < length (workers s) then
        (case workers s ! i of
           WNotStarted \<Rightarrow> None
         | WAcquire \<Rightarrow>
             (if int (sem s) < ConcurrentLimit DefaultConfig
              then Some (s\<lparr>sem := sem s + 1, workers := (workers s)[i := WProbe]\<rparr>)
              else None)
         | WProbe \<Rightarrow>
             (case probe w (infos s) i of
                (Returned result, tr) \<Rightarrow>
                  Some (s\<lparr>workers := (workers s)[i := WSend result],
                           net_log := net_log s @ tr\<rparr>)
              | (Panicked p, tr) \<Rightarrow>
                  Some (s\<lparr>net_log := net_log s @ tr, exit_code := Some 2\<rparr>))
         | WSend result \<Rightarrow>
             (if length (results s) < length (infos s)
              then Some (s\<lparr>results := results s @ [result],
                           workers := (workers s)[i := WRelease]\<rparr>)
              else None)
         | WRelease \<Rightarrow>
             (if 0 < sem s
              then Some (s\<lparr>sem := sem s - 1, workers := (workers s)[i := WDone]\<rparr>)
              else None)
         | WDone \<Rightarrow>
             (if 0 < wg s
              then Some (s\<lparr>wg := wg s - 1, workers := (workers s)[i := WFinished]\<rparr>)
              else Some (s\<lparr>exit_code := Some 2\<rparr>))
         | WFinished \<Rightarrow> None)
      else None)"

text \<open>One step of the closing goroutine (lines 457--460).\<close>

definition watcher_step :: "state \<Rightarrow> state option" where
  "watcher_step s =
     (case watcher s of
        WatchNotStarted \<Rightarrow> None
      | WatchWait \<Rightarrow> (if wg s = 0 then Some (s\<lparr>watcher := WatchClose\<rparr>) else None)
      | WatchClose \<Rightarrow> Some (s\<lparr>chan_closed := True, watcher := WatchFinished\<rparr>)
      | WatchFinished \<Rightarrow> None)"

text \<open>One step of the process; nothing runs once the process has ended.\<close>

definition step :: "world \<Rightarrow> tid \<Rightarrow> state \<Rightarrow> state option" where
  "step w t s =
     (if exit_code s \<noteq> None then None
      else (case t of
              TMain \<Rightarrow> main_step w s
            | TWorker i \<Rightarrow> worker_step w i s
            | TWatcher \<Rightarrow> watcher_step s))"

text \<open>A run under a schedule; \<open>None\<close> when the schedule picks a goroutine that cannot move.\<close>

fun run :: "world \<Rightarrow> tid list \<Rightarrow> state \<Rightarrow> state option" where
  "run w [] s = Some s"
| "run w (t # ts) s = (case step w t s of None \<Rightarrow> None | Some s' \<Rightarrow> run w ts s')"

section \<open>The loop of the earlier variant (checkip3.go, lines 92--98)\<close>

text \<open>
  The results still to come from the channel, the index of the next write to the log
  and its error if any, the console and the log.  A failed write is printed and \<open>main\<close>
  returns.  The third component is what was left unread.
\<close>

fun drain3 ::
  "(nat \<Rightarrow> string option) \<Rightarrow> nat \<Rightarrow> string list \<Rightarrow> string list \<Rightarrow> string list \<Rightarrow>
   string list \<times> string list \<times> string list" where
  "drain3 writeErr k [] con lg = (con, lg, [])"
| "drain3 writeErr k (result # rest) con lg =
     (case writeErr k of
        Some err \<Rightarrow>
          (con @ [result @ newline, ''Error writing to log file: '' @ err @ newline], lg, rest)
      | None \<Rightarrow>
          drain3 writeErr (Suc k) rest (con @ [result @ newline]) (lg @ [result @ newline]))"

section \<open>Vocabulary for stating the properties of a probe\<close>

text \<open>
  The calls of \<open>n\<close> consecutive failed attempts numbered from \<open>i\<close>: every attempt but
  attempt 0 is preceded by the wait of \<open>RetryDelay\<close>.
\<close>

definition attempts_trace :: "Config \<Rightarrow> string \<Rightarrow> nat \<Rightarrow> nat \<Rightarrow> event list" where
  "attempts_trace config addr i n =
     concat (map (\<lambda>k. (if 0 < k then [EvWait (RetryDelay config)] else []) @
                       [EvDial addr (Timeout config)]) [i..<n])"

text \<open>The time measured around the last of \<open>n\<close> dial calls; zero when none was made.\<close>

definition last_elapsed :: "net_env \<Rightarrow> Config \<Rightarrow> string \<Rightarrow> nat \<Rightarrow> int" where
  "last_elapsed env config addr n =
     (if n = 0 then 0 else snd (DialTimeout env (n - 1) addr (Timeout config)))"

text \<open>
  The specification's ``dotted/numeric IP'': four decimal fields of one to three digits,
  each at most 255, separated by dots.  This follows the specification's words; the
  program never computes it.
\<close>

fun split_on :: "char \<Rightarrow> string \<Rightarrow> string list" where
  "split_on c [] = [[]]"
| "split_on c (x # xs) =
     (if x = c then [] # split_on c xs
      else (x # hd (split_on c xs)) # tl (split_on c xs))"

definition is_digit :: "char \<Rightarrow> bool" where
  "is_digit c = (48 \<le> (of_char c :: nat) \<and> (of_char c :: nat) \<le> 57)"

definition decimal_value :: "string \<Rightarrow> nat" where
  "decimal_value s = foldl (\<lambda>a c. 10 * a + (of_char c - 48)) 0 s"

definition is_decimal_octet :: "string \<Rightarrow> bool" where
  "is_decimal_octet s =
     (s \<noteq> [] \<and> length s \<le> 3 \<and> list_all is_digit s \<and> decimal_value s \<le> 255)"

definition spec_is_numeric_ip :: "string \<Rightarrow> bool" where
  "spec_is_numeric_ip s =
     (length (split_on CHR ''.'' s) = 4 \<and> list_all is_decimal_octet (split_on CHR ''.'' s))"

section \<open>Vocabulary for stating the properties of the loader\<close>

text \<open>
  The specification's words for the loader: the files considered are the entries that are
  not directories and whose name ends in \<open>.conf\<close>; a file contributes its records when
  it parses and one warning when it does not; the result is the union of the records,
  and an error exactly when the directory is unreadable or the union is empty.
\<close>

definition conf_paths :: "world \<Rightarrow> string \<Rightarrow> dir_entry list \<Rightarrow> string list" where
  "conf_paths w folderPath entries =
     map (\<lambda>e. Join (lib w) folderPath (Name e))
       (filter (\<lambda>e. \<not> IsDir e \<and> strings_HasSuffix (Name e) ''.conf'') entries)"

definition records_of :: "world \<Rightarrow> string \<Rightarrow> ServerInfo list" where
  "records_of w p = (case parseServerInfo w p of Inl err \<Rightarrow> [] | Inr recs \<Rightarrow> recs)"

definition warnings_of :: "world \<Rightarrow> string \<Rightarrow> string list" where
  "warnings_of w p =
     (case parseServerInfo w p of Inl err \<Rightarrow> [msg_warning p err] | Inr recs \<Rightarrow> [])"

definition spec_parseAll :: "world \<Rightarrow> string \<Rightarrow> (string + ServerInfo list) \<times> string list" where
  "spec_parseAll w folderPath =
     (case ReadDir w folderPath of
        Inl err \<Rightarrow> (Inl (msg_readdir_failed @ folderPath @ '': '' @ err), [])
      | Inr entries \<Rightarrow>
          (if concat (map (records_of w) (conf_paths w folderPath entries)) = []
           then Inl (msg_no_config folderPath)
           else Inr (concat (map (records_of w) (conf_paths w folderPath entries))),
           concat (map (warnings_of w) (conf_paths w folderPath entries))))"

section \<open>Vocabulary for stating the properties of a run\<close>

text \<open>The workers that are at a program counter of a given kind.\<close>

definition at_pc :: "(worker_pc \<Rightarrow> bool) \<Rightarrow> worker_pc list \<Rightarrow> nat set" where
  "at_pc P ws = {i. i < length ws \<and> P (ws ! i)}"

text \<open>A worker holds a slot of the semaphore from its acquire to its release; the call
  of \<open>checkConnectivity\<close>, and with it every socket attempt, lies in between.\<close>

fun holding :: "worker_pc \<Rightarrow> bool" where
  "holding WProbe = True"
| "holding (WSend r) = True"
| "holding WRelease = True"
| "holding p = False"

text \<open>A worker is active from its launch until its \<open>wg.Done()\<close> has run.\<close>

fun active :: "worker_pc \<Rightarrow> bool" where
  "active WNotStarted = False"
| "active WFinished = False"
| "active p = True"

text \<open>A worker has sent once it is past \<open>results <- result\<close>.\<close>

fun has_sent :: "worker_pc \<Rightarrow> bool" where
  "has_sent WRelease = True"
| "has_sent WDone = True"
| "has_sent WFinished = True"
| "has_sent p = False"

text \<open>The steps a goroutine still has to make, for the bound on the length of a run.\<close>

fun worker_rank :: "worker_pc \<Rightarrow> nat" where
  "worker_rank WNotStarted = 5"
| "worker_rank WAcquire = 5"
| "worker_rank WProbe = 4"
| "worker_rank (WSend r) = 3"
| "worker_rank WRelease = 2"
| "worker_rank WDone = 1"
| "worker_rank WFinished = 0"

fun watcher_rank :: "watcher_pc \<Rightarrow> nat" where
  "watcher_rank WatchNotStarted = 2"
| "watcher_rank WatchWait = 2"
| "watcher_rank WatchClose = 1"
| "watcher_rank WatchFinished = 0"

definition main_rank :: "state \<Rightarrow> nat" where
  "main_rank s =
     (case mpc s of
        MStart \<Rightarrow> 0
      | MLaunch k \<Rightarrow> (length (infos s) - k) + (length (infos s) - length (received s)) + 2
      | MDrain \<Rightarrow> (length (infos s) - length (received s)) + 1
      | MAborted \<Rightarrow> 0
      | MReturned \<Rightarrow> 0)"

definition remaining :: "state \<Rightarrow> nat" where
  "remaining s =
     (if exit_code s \<noteq> None then 0
      else main_rank s + sum_list (map worker_rank (workers s)) + watcher_rank (watcher s))"

text \<open>The lines that reach the log out of the lines written from write number \<open>k\<close> on.\<close>

fun written :: "world \<Rightarrow> nat \<Rightarrow> string list \<Rightarrow> string list" where
  "written w k [] = []"
| "written w k (x # xs) = (if LogWriteFails w k then [] else [x]) @ written w (Suc k) xs"

text \<open>What the console holds when the probes are launched.\<close>

definition start_console :: "world \<Rightarrow> string list" where
  "start_console w =
     snd (parseAllConfigFiles w (Args w ! 1)) @
     [msg_start (int (length (projr (fst (parseAllConfigFiles w (Args w ! 1))))))]"

text \<open>The records the loader returns for the directory argument, none on an error.\<close>

definition loaded :: "world \<Rightarrow> ServerInfo list" where
  "loaded w =
     (case fst (parseAllConfigFiles w (Args w ! 1)) of Inl err \<Rightarrow> [] | Inr recs \<Rightarrow> recs)"

text \<open>Whether lines 406--430 return early, and what the console holds then.\<close>

definition startup_aborts :: "world \<Rightarrow> bool" where
  "startup_aborts w =
     (if length (Args w) < 2 then True
      else (case fst (parseAllConfigFiles w (Args w ! 1)) of
              Inl err \<Rightarrow> True
            | Inr recs \<Rightarrow> CreateFile w (log_name w) \<noteq> None))"

definition aborted_console :: "world \<Rightarrow> string list" where
  "aborted_console w =
     (if length (Args w) < 2 then [msg_usage @ newline]
      else (case fst (parseAllConfigFiles w (Args w ! 1)) of
              Inl err \<Rightarrow> snd (parseAllConfigFiles w (Args w ! 1)) @ [msg_config_failed err]
            | Inr recs \<Rightarrow>
                (case CreateFile w (log_name w) of
                   Some err \<Rightarrow>
                     snd (parseAllConfigFiles w (Args w ! 1)) @ [msg_create_failed err]
                 | None \<Rightarrow> [])))"

definition result_lines :: "world \<Rightarrow> CheckResult list \<Rightarrow> string list" where
  "result_lines w rs = map (\<lambda>r. formatResult (lib w) r @ newline) rs"

text \<open>No lookup answers with neither an error nor an address (as \<open>net.LookupIP\<close> does
  not).\<close>

definition no_empty_answers :: "world \<Rightarrow> bool" where
  "no_empty_answers w = (\<forall>i h. LookupIP (net w i) h \<noteq> Inr [])"

text \<open>The invariants of the run, by the part of the state they describe.\<close>

definition inv_shape :: "state \<Rightarrow> bool" where
  "inv_shape s \<longleftrightarrow>
     length (workers s) = length (infos s) \<and>
     (case mpc s of
        MStart \<Rightarrow> infos s = [] \<and> watcher s = WatchNotStarted \<and> exit_code s = None
      | MLaunch k \<Rightarrow>
          k \<le> length (infos s) \<and> watcher s = WatchNotStarted \<and>
          (\<forall>i < length (infos s). (workers s ! i = WNotStarted) = (k \<le> i))
      | MDrain \<Rightarrow>
          watcher s \<noteq> WatchNotStarted \<and>
          (\<forall>i < length (infos s). workers s ! i \<noteq> WNotStarted)
      | MAborted \<Rightarrow> infos s = [] \<and> watcher s = WatchNotStarted \<and> exit_code s = Some 0
      | MReturned \<Rightarrow>
          watcher s \<noteq> WatchNotStarted \<and> chan_closed s \<and> results s = [] \<and>
          exit_code s = Some 0 \<and>
          (\<forall>i < length (infos s). workers s ! i \<noteq> WNotStarted)) \<and>
     (watcher s = WatchClose \<or> watcher s = WatchFinished \<longrightarrow>
        (\<forall>i < length (infos s). workers s ! i = WFinished)) \<and>
     (chan_closed s \<longleftrightarrow> watcher s = WatchFinished)"

definition inv_counters :: "state \<Rightarrow> bool" where
  "inv_counters s \<longleftrightarrow>
     sem s = card (at_pc holding (workers s)) \<and>
     int (sem s) \<le> ConcurrentLimit DefaultConfig \<and>
     wg s = card (at_pc active (workers s))"

definition inv_results :: "world \<Rightarrow> state \<Rightarrow> bool" where
  "inv_results w s \<longleftrightarrow>
     (\<forall>i < length (workers s). \<forall>r. workers s ! i = WSend r \<longrightarrow>
        fst (probe w (infos s) i) = Returned r) \<and>
     image_mset Returned (mset (received s @ results s)) =
       image_mset (\<lambda>i. fst (probe w (infos s) i)) (mset_set (at_pc has_sent (workers s)))"

definition inv_output :: "world \<Rightarrow> state \<Rightarrow> bool" where
  "inv_output w s \<longleftrightarrow>
     successCount s = int (length (filter IsSuccess (received s))) \<and>
     failCount s = int (length (filter (\<lambda>r. \<not> IsSuccess r) (received s))) \<and>
     (case mpc s of
        MStart \<Rightarrow>
          console s = [] \<and> received s = [] \<and> net_log s = [] \<and> logfile s = [] \<and>
          logWrites s = 0
      | MAborted \<Rightarrow>
          startup_aborts w \<and> console s = aborted_console w \<and>
          received s = [] \<and> net_log s = [] \<and> logfile s = []
      | MLaunch k \<Rightarrow>
          \<not> startup_aborts w \<and> fst (parseAllConfigFiles w (Args w ! 1)) = Inr (infos s) \<and>
          infos s \<noteq> [] \<and> logFileName s = log_name w \<and> logWrites s = length (received s) \<and>
          console s = start_console w @ result_lines w (received s) \<and>
          logfile s = written w 0 (result_lines w (received s))
      | MDrain \<Rightarrow>
          \<not> startup_aborts w \<and> fst (parseAllConfigFiles w (Args w ! 1)) = Inr (infos s) \<and>
          infos s \<noteq> [] \<and> logFileName s = log_name w \<and> logWrites s = length (received s) \<and>
          console s = start_console w @ result_lines w (received s) \<and>
          logfile s = written w 0 (result_lines w (received s))
      | MReturned \<Rightarrow>
          \<not> startup_aborts w \<and> fst (parseAllConfigFiles w (Args w ! 1)) = Inr (infos s) \<and>
          infos s \<noteq> [] \<and> logFileName s = log_name w \<and>
          console s = start_console w @ result_lines w (received s) @
            [summary_text (lib w) (int (length (infos s))) (successCount s) (failCount s)
               (TotalElapsed w) (log_name w) @ newline] \<and>
          logfile s = written w 0 (result_lines w (received s) @
            [summary_text (lib w) (int (length (infos s))) (successCount s) (failCount s)
               (TotalElapsed w) (log_name w) @ newline]))"

section \<open>Example inputs\<close>

definition env_refusing :: net_env where
  "env_refusing =
     \<lparr>LookupIP = (\<lambda>h. if h = ''db'' then Inr [''10.0.0.7'', ''10.0.0.8'']
                       else Inl ''no such host''),
      DialTimeout = (\<lambda>k a t. (Some ''connection refused'', 7 + int k)),
      ctxDone = (\<lambda>k. False),
      Now = 100\<rparr>"

definition info_web :: ServerInfo where
  "info_web = \<lparr>AppName = ''web'', ServerIP = ''10.0.0.1'', ServerID = 1, ServerPort = 80\<rparr>"

definition info_db :: ServerInfo where
  "info_db = \<lparr>AppName = ''db'', ServerIP = ''db'', ServerID = 2, ServerPort = 5432\<rparr>"

definition info_cache :: ServerInfo where
  "info_cache = \<lparr>AppName = ''cache'', ServerIP = ''cache'', ServerID = 3, ServerPort = 6379\<rparr>"

definition info_site :: ServerInfo where
  "info_site =
     \<lparr>AppName = ''site'', ServerIP = ''example.com'', ServerID = 4, ServerPort = 443\<rparr>"


text \<open>A small library and a small world: a directory holding a subdirectory, a file that
  is not a configuration, a configuration that does not parse and one with two records.\<close>

definition trim_blanks :: "string \<Rightarrow> string" where
  "trim_blanks s = strings_Trim s '' ''"

definition atoi_digits :: "string \<Rightarrow> string + int" where
  "atoi_digits s =
     (if s \<noteq> [] \<and> list_all is_digit s then Inr (int (decimal_value s))
      else Inl ''invalid syntax'')"

definition lib_small :: golib where
  "lib_small =
     \<lparr>TrimSpace = trim_blanks, Atoi = atoi_digits, Join = (\<lambda>a b. a @ ''/'' @ b),
      FormatTime = (\<lambda>layout t. itoa t), DurationString = (\<lambda>d. itoa d @ ''ns'')\<rparr>"

definition env_mixed :: net_env where
  "env_mixed =
     \<lparr>LookupIP = (\<lambda>h. if h = ''db'' then Inr [''10.0.0.7'', ''10.0.0.8'']
                       else Inl ''no such host''),
      DialTimeout = (\<lambda>k a t. if a = ''10.0.0.1:80'' then (None, 3)
                              else (Some ''connection refused'', 7 + int k)),
      ctxDone = (\<lambda>k. False),
      Now = 100\<rparr>"

definition world_small :: world where
  "world_small =
     \<lparr>Args = [''checkip'', ''conf''],
      lib = lib_small,
      ReadDir = (\<lambda>p. if p = ''conf''
                      then Inr [\<lparr>Name = ''old.conf'', IsDir = True\<rparr>,
                                \<lparr>Name = ''notes.txt'', IsDir = False\<rparr>,
                                \<lparr>Name = ''bad.conf'', IsDir = False\<rparr>,
                                \<lparr>Name = ''a.conf'', IsDir = False\<rparr>]
                      else Inl ''no such directory''),
      OpenScan = (\<lambda>p. if p = ''conf/a.conf''
                       then Inr ([''# servers'',
                                  ''appName: '' @ [CHR 0x22] @ ''web'' @ [CHR 0x22],
                                  ''serverIP: 10.0.0.1'', ''serverID: 1'', ''serverPort: 80'',
                                  ''appName: db'', ''serverIP: db'', ''serverID: 2'',
                                  ''serverPort: 5432''], None)
                       else if p = ''conf/bad.conf''
                       then Inr ([''serverPort: eighty''], None)
                       else Inl ''no such file''),
      CreateFile = (\<lambda>p. None),
      LogWriteFails = (\<lambda>k. k = 0),
      NowLog = 7,
      TotalElapsed = 42,
      net = (\<lambda>i. env_mixed)\<rparr>"

text \<open>The same world started without its argument, and a schedule for the two records
  of \<open>world_small\<close>.\<close>

definition world_no_args :: world where
  "world_no_args = world_small\<lparr>Args := [''checkip'']\<rparr>"

definition sched_small :: "tid list" where
  "sched_small =
     [TMain, TMain, TMain, TWorker 1, TWorker 0, TWorker 0, TMain, TWorker 1, TWorker 0,
      TWorker 1, TMain, TWorker 0, TWorker 1, TWorker 1, TWorker 0, TWatcher, TWatcher,
      TMain, TMain]"

section \<open>Properties of checkConnectivity\<close>

lemma strings_Contains_dot: "strings_Contains s ''.'' \<longleftrightarrow> CHR ''.'' \<in> set s"
  by (induction s) auto

lemma retry_loop_exit:
  "\<not> i < RetryCount config \<Longrightarrow>
   retry_loop env info config ip i result lastErr tr =
     (case lastErr of None \<Rightarrow> (Panicked NilDereference, tr)
      | Some err \<Rightarrow> (Returned (result\<lparr>Error := err\<rparr>), tr))"
  by (subst retry_loop.simps) simp

lemma retry_loop_cancel:
  "i < RetryCount config \<Longrightarrow> 0 < i \<Longrightarrow> ctxDone env (nat i) \<Longrightarrow>
   retry_loop env info config ip i result lastErr tr =
     (Returned (result\<lparr>Error := msg_cancelled\<rparr>), tr @ [EvWait (RetryDelay config)])"
  by (subst retry_loop.simps) simp

lemma retry_loop_connected:
  "i < RetryCount config \<Longrightarrow> \<not> (0 < i \<and> ctxDone env (nat i)) \<Longrightarrow>
   fst (DialTimeout env (nat i) (dial_addr ip info) (Timeout config)) = None \<Longrightarrow>
   retry_loop env info config ip i result lastErr tr =
     (Returned (result\<lparr>Duration := snd (DialTimeout env (nat i) (dial_addr ip info) (Timeout config)),
                        IsSuccess := True\<rparr>),
      (if 0 < i then tr @ [EvWait (RetryDelay config)] else tr) @
        [EvDial (dial_addr ip info) (Timeout config), EvClose])"
  by (subst retry_loop.simps) (auto simp: Let_def)

lemma retry_loop_failed:
  "i < RetryCount config \<Longrightarrow> \<not> (0 < i \<and> ctxDone env (nat i)) \<Longrightarrow>
   fst (DialTimeout env (nat i) (dial_addr ip info) (Timeout config)) = Some err \<Longrightarrow>
   retry_loop env info config ip i result lastErr tr =
     retry_loop env info config ip (i + 1)
       (result\<lparr>Duration := snd (DialTimeout env (nat i) (dial_addr ip info) (Timeout config))\<rparr>)
       (Some err)
       ((if 0 < i then tr @ [EvWait (RetryDelay config)] else tr) @
          [EvDial (dial_addr ip info) (Timeout config)])"
  by (subst retry_loop.simps) (auto simp: Let_def)

lemma retry_loop_cases:
  obtains (exit) "\<not> i < RetryCount config"
  | (cancel) "i < RetryCount config" "0 < i" "ctxDone env (nat i)"
  | (connected) "i < RetryCount config" "\<not> (0 < i \<and> ctxDone env (nat i))"
      "fst (DialTimeout env (nat i) (dial_addr ip info) (Timeout config)) = None"
  | (failed) err where "i < RetryCount config" "\<not> (0 < i \<and> ctxDone env (nat i))"
      "fst (DialTimeout env (nat i) (dial_addr ip info) (Timeout config)) = Some err"
  by (cases "fst (DialTimeout env (nat i) (dial_addr ip info) (Timeout config))") auto

lemma retry_loop_trace:
  "\<exists>suf. snd (retry_loop env info config ip i result lastErr tr) = tr @ suf \<and>
         (\<forall>e \<in> set suf. e = EvWait (RetryDelay config) \<or>
              e = EvDial (dial_addr ip info) (Timeout config) \<or> e = EvClose)"
proof (induction "nat (RetryCount config - i)" arbitrary: i result lastErr tr)
  case 0
  then have "\<not> i < RetryCount config" by simp
  then show ?case by (simp add: retry_loop_exit split: option.splits)
next
  case (Suc k)
  show ?case
  proof (cases rule: retry_loop_cases[where i=i and config=config and env=env and ip=ip and info=info])
    case exit
    then show ?thesis by (simp add: retry_loop_exit split: option.splits)
  next
    case cancel
    then show ?thesis by (simp add: retry_loop_cancel)
  next
    case connected
    then show ?thesis by (simp add: retry_loop_connected)
  next
    case (failed err)
    let ?res = "result\<lparr>Duration := snd (DialTimeout env (nat i) (dial_addr ip info) (Timeout config))\<rparr>"
    let ?pre = "(if 0 < i then [EvWait (RetryDelay config)] else []) @
          [EvDial (dial_addr ip info) (Timeout config)]"
    have k: "k = nat (RetryCount config - (i + 1))" using Suc.hyps(2) by simp
    obtain suf where s: "snd (retry_loop env info config ip (i + 1) ?res (Some err) (tr @ ?pre)) =
         (tr @ ?pre) @ suf"
      and e: "\<forall>e \<in> set suf. e = EvWait (RetryDelay config) \<or>
              e = EvDial (dial_addr ip info) (Timeout config) \<or> e = EvClose"
      using Suc.hyps(1)[OF k] by blast
    have "retry_loop env info config ip i result lastErr tr =
          retry_loop env info config ip (i + 1) ?res (Some err) (tr @ ?pre)"
      using failed by (simp add: retry_loop_failed)
    with s have "snd (retry_loop env info config ip i result lastErr tr) = tr @ (?pre @ suf)"
      by simp
    moreover have "\<forall>e \<in> set (?pre @ suf). e = EvWait (RetryDelay config) \<or>
              e = EvDial (dial_addr ip info) (Timeout config) \<or> e = EvClose"
      using e by auto
    ultimately show ?thesis by blast
  qed
qed

lemma retry_loop_lookups:
  "lookups (snd (retry_loop env info config ip i result lastErr tr)) = lookups tr"
proof -
  obtain suf where s: "snd (retry_loop env info config ip i result lastErr tr) = tr @ suf"
    and e: "\<forall>e \<in> set suf. e = EvWait (RetryDelay config) \<or>
              e = EvDial (dial_addr ip info) (Timeout config) \<or> e = EvClose"
    using retry_loop_trace by blast
  from e have "filter is_lookup suf = []" by (auto simp: filter_empty_conv)
  with s show ?thesis by (simp add: lookups_def)
qed

lemma retry_loop_dial_addr:
  assumes "EvDial a t \<in> set (snd (retry_loop env info config ip i result lastErr tr))"
  shows "EvDial a t \<in> set tr \<or> a = dial_addr ip info"
proof -
  obtain suf where s: "snd (retry_loop env info config ip i result lastErr tr) = tr @ suf"
    and e: "\<forall>e \<in> set suf. e = EvWait (RetryDelay config) \<or>
              e = EvDial (dial_addr ip info) (Timeout config) \<or> e = EvClose"
    using retry_loop_trace by blast
  from assms s e show ?thesis by auto
qed

lemma retry_loop_all_fail:
  assumes "0 \<le> i" and "i < RetryCount config"
    and "\<forall>k. nat i \<le> k \<and> k < nat (RetryCount config) \<longrightarrow>
           fst (DialTimeout env k (dial_addr ip info) (Timeout config)) \<noteq> None \<and> \<not> ctxDone env k"
  shows "retry_loop env info config ip i result lastErr tr =
     (Returned (result\<lparr>Duration := snd (DialTimeout env (nat (RetryCount config) - 1) (dial_addr ip info) (Timeout config)),
                        Error := the (fst (DialTimeout env (nat (RetryCount config) - 1) (dial_addr ip info) (Timeout config)))\<rparr>),
      tr @ attempts_trace config (dial_addr ip info) (nat i) (nat (RetryCount config)))"
  using assms
proof (induction "nat (RetryCount config - i)" arbitrary: i result lastErr tr)
  case 0
  then show ?case by simp
next
  case (Suc k)
  let ?d = "DialTimeout env (nat i) (dial_addr ip info) (Timeout config)"
  from Suc.prems have nd: "fst ?d \<noteq> None" and nc: "\<not> ctxDone env (nat i)"
    by (auto simp: nat_less_iff)
  then obtain err where err: "fst ?d = Some err" by auto
  have step: "retry_loop env info config ip i result lastErr tr =
     retry_loop env info config ip (i + 1) (result\<lparr>Duration := snd ?d\<rparr>) (Some err)
       ((if 0 < i then tr @ [EvWait (RetryDelay config)] else tr) @
          [EvDial (dial_addr ip info) (Timeout config)])"
    using Suc.prems(2) nc err by (simp add: retry_loop_failed)
  have upt: "[nat i..<nat (RetryCount config)] = nat i # [nat (i + 1)..<nat (RetryCount config)]"
    using Suc.prems(1,2) by (simp add: upt_conv_Cons nat_add_distrib)
  show ?case
  proof (cases "i + 1 < RetryCount config")
    case True
    have k: "k = nat (RetryCount config - (i + 1))" using Suc.hyps(2) by simp
    have "\<forall>k. nat (i + 1) \<le> k \<and> k < nat (RetryCount config) \<longrightarrow>
           fst (DialTimeout env k (dial_addr ip info) (Timeout config)) \<noteq> None \<and> \<not> ctxDone env k"
      using Suc.prems(1,3) by (auto simp: nat_add_distrib)
    from Suc.hyps(1)[OF k _ True this] Suc.prems(1)
    show ?thesis
      unfolding step by (simp add: attempts_trace_def upt)
  next
    case False
    with Suc.prems have eq: "RetryCount config = i + 1" by simp
    then have n: "nat (RetryCount config) - 1 = nat i" using Suc.prems(1) by simp
    have e: "[nat (i + 1)..<nat (RetryCount config)] = []" using eq by simp
    have last: "DialTimeout env (nat (RetryCount config) - 1) (dial_addr ip info) (Timeout config) = ?d"
      by (simp only: n)
    have tr: "tr @ attempts_trace config (dial_addr ip info) (nat i) (nat (RetryCount config)) =
        (if 0 < i then tr @ [EvWait (RetryDelay config)] else tr) @
          [EvDial (dial_addr ip info) (Timeout config)]"
      using Suc.prems(1) by (simp add: attempts_trace_def upt e)
    show ?thesis
      unfolding step last tr using False err
      by (simp add: retry_loop_exit)
  qed
qed

lemma dial_attempts_append [simp]: "dial_attempts (xs @ ys) = dial_attempts xs + dial_attempts ys"
  by (simp add: dial_attempts_def)

lemma retry_loop_duration:
  assumes "fst (retry_loop env info config ip i result lastErr tr) = Returned r"
    and "0 \<le> i" and "dial_attempts tr = nat i"
    and "Duration result = last_elapsed env config (dial_addr ip info) (nat i)"
  shows "Duration r = last_elapsed env config (dial_addr ip info)
           (dial_attempts (snd (retry_loop env info config ip i result lastErr tr)))"
  using assms
proof (induction "nat (RetryCount config - i)" arbitrary: i result lastErr tr)
  case 0
  then have "\<not> i < RetryCount config" by simp
  with 0 show ?case by (auto simp: retry_loop_exit split: option.splits)
next
  case (Suc k)
  show ?case
  proof (cases rule: retry_loop_cases[where i=i and config=config and env=env and ip=ip and info=info])
    case exit
    with Suc.prems show ?thesis by (auto simp: retry_loop_exit split: option.splits)
  next
    case cancel
    with Suc.prems show ?thesis by (auto simp: retry_loop_cancel dial_attempts_def)
  next
    case connected
    with Suc.prems show ?thesis
      by (auto simp: retry_loop_connected dial_attempts_def last_elapsed_def)
  next
    case (failed err)
    have k: "k = nat (RetryCount config - (i + 1))" using Suc.hyps(2) by simp
    let ?res = "result\<lparr>Duration := snd (DialTimeout env (nat i) (dial_addr ip info) (Timeout config))\<rparr>"
    let ?tr = "(if 0 < i then tr @ [EvWait (RetryDelay config)] else tr) @
          [EvDial (dial_addr ip info) (Timeout config)]"
    have a: "dial_attempts ?tr = nat (i + 1)"
      using Suc.prems(2,3) by (simp add: dial_attempts_def nat_add_distrib)
    have b: "Duration ?res = last_elapsed env config (dial_addr ip info) (nat (i + 1))"
      using Suc.prems(2) by (simp add: last_elapsed_def nat_add_distrib)
    have c: "fst (retry_loop env info config ip (i + 1) ?res (Some err) ?tr) = Returned r"
      using Suc.prems(1) failed by (simp add: retry_loop_failed)
    from Suc.hyps(1)[OF k c _ a b] Suc.prems(2) failed show ?thesis
      by (simp add: retry_loop_failed)
  qed
qed

lemma retry_loop_returns:
  assumes "i < RetryCount config \<or> lastErr \<noteq> None"
  shows "\<exists>r. fst (retry_loop env info config ip i result lastErr tr) = Returned r \<and>
             ServerInfo r = ServerInfo result"
  using assms
proof (induction "nat (RetryCount config - i)" arbitrary: i result lastErr tr)
  case 0
  then have "\<not> i < RetryCount config" by simp
  with 0 show ?case by (auto simp: retry_loop_exit split: option.splits)
next
  case (Suc k)
  show ?case
  proof (cases rule: retry_loop_cases[where i=i and config=config and env=env and ip=ip and info=info])
    case exit
    with Suc.prems show ?thesis by (auto simp: retry_loop_exit split: option.splits)
  next
    case cancel
    then show ?thesis by (simp add: retry_loop_cancel)
  next
    case connected
    then show ?thesis by (simp add: retry_loop_connected)
  next
    case (failed err)
    have k: "k = nat (RetryCount config - (i + 1))" using Suc.hyps(2) by simp
    let ?res = "result\<lparr>Duration := snd (DialTimeout env (nat i) (dial_addr ip info) (Timeout config))\<rparr>"
    let ?tr = "(if 0 < i then tr @ [EvWait (RetryDelay config)] else tr) @
          [EvDial (dial_addr ip info) (Timeout config)]"
    have "\<exists>r. fst (retry_loop env info config ip (i + 1) ?res (Some err) ?tr) = Returned r \<and>
             ServerInfo r = ServerInfo ?res"
      by (rule Suc.hyps(1)[OF k]) simp
    moreover have "retry_loop env info config ip i result lastErr tr =
          retry_loop env info config ip (i + 1) ?res (Some err) ?tr"
      using failed by (simp add: retry_loop_failed)
    ultimately show ?thesis by simp
  qed
qed

lemma dial_attempts_attempts_trace: "dial_attempts (attempts_trace config addr i n) = n - i"
proof (induction n)
  case 0
  then show ?case by (simp add: attempts_trace_def dial_attempts_def)
next
  case (Suc n)
  have "attempts_trace config addr i (Suc n) =
      (if i \<le> n then attempts_trace config addr i n @
          (if 0 < n then [EvWait (RetryDelay config)] else []) @ [EvDial addr (Timeout config)]
       else [])"
    by (simp add: attempts_trace_def)
  with Suc show ?case by (auto simp: dial_attempts_def)
qed

lemma env_refusing_simps:
  "LookupIP env_refusing h =
     (if h = ''db'' then Inr [''10.0.0.7'', ''10.0.0.8''] else Inl ''no such host'')"
  "DialTimeout env_refusing k a t = (Some ''connection refused'', 7 + int k)"
  "ctxDone env_refusing k = False"
  "Now env_refusing = 100"
  by (simp_all add: env_refusing_def)

lemmas eval_simps =
  DefaultConfig_def Second_def dial_addr_def itoa_def digits_of.simps digit_char_def

text \<open>
  C6.  With \<open>RetryCount\<close> zero or negative and a host whose resolution does not fail (a
  dotted host, which is not looked up, or a lookup that answers with an address),
  \<open>checkConnectivity\<close> makes no connect attempt and does not return a \<open>CheckResult\<close>: it
  panics on \<open>lastErr.Error()\<close> with \<open>lastErr\<close> nil.
\<close>

theorem checkConnectivity_zero_retries_panics:
  assumes "RetryCount config \<le> 0"
    and "strings_Contains (ServerIP info) ''.'' \<or>
         (\<exists>ip rest. LookupIP env (ServerIP info) = Inr (ip # rest))"
  shows "fst (checkConnectivity env info config) = Panicked NilDereference \<and>
         dial_attempts (snd (checkConnectivity env info config)) = 0"
proof -
  have exit: "\<And>ip result tr. retry_loop env info config ip 0 result None tr =
      (Panicked NilDereference, tr)"
    using assms(1) by (simp add: retry_loop_exit)
  from assms(2) show ?thesis
    by (auto simp: checkConnectivity_def Let_def exit dial_attempts_def)
qed

theorem checkConnectivity_zero_retries_panics_witness:
  "RetryCount (DefaultConfig\<lparr>RetryCount := 0\<rparr>) \<le> 0 \<and>
   LookupIP env_refusing (ServerIP info_db) = Inr [''10.0.0.7'', ''10.0.0.8''] \<and>
   fst (checkConnectivity env_refusing info_db (DefaultConfig\<lparr>RetryCount := 0\<rparr>)) =
     Panicked NilDereference \<and>
   dial_attempts (snd (checkConnectivity env_refusing info_db (DefaultConfig\<lparr>RetryCount := 0\<rparr>))) = 0"
proof -
  have a: "RetryCount (DefaultConfig\<lparr>RetryCount := 0\<rparr>) \<le> 0" by simp
  have b: "LookupIP env_refusing (ServerIP info_db) = Inr [''10.0.0.7'', ''10.0.0.8'']"
    by (simp add: env_refusing_simps info_db_def)
  then have c: "strings_Contains (ServerIP info_db) ''.'' \<or>
         (\<exists>ip rest. LookupIP env_refusing (ServerIP info_db) = Inr (ip # rest))"
    by simp
  from checkConnectivity_zero_retries_panics [OF a c] a b show ?thesis by simp
qed

text \<open>
  C2, as stated, fails at \<open>RetryCount = 0\<close>: against a target that refuses every
  connection the probe makes no attempt at all (not one) and returns no result.
\<close>

theorem retry_count_zero_counterexample:
  "RetryCount (DefaultConfig\<lparr>RetryCount := 0\<rparr>) = 0 \<and>
   checkConnectivity env_refusing info_web (DefaultConfig\<lparr>RetryCount := 0\<rparr>) =
     (Panicked NilDereference, []) \<and>
   dial_attempts (snd (checkConnectivity env_refusing info_web (DefaultConfig\<lparr>RetryCount := 0\<rparr>))) \<noteq> 1"
  by (simp add: checkConnectivity_def info_web_def retry_loop_exit dial_attempts_def)

text \<open>
  C2, amended.  For \<open>RetryCount > 0\<close>, a host that resolves to \<open>ip\<close> (a dotted host is
  its own address; otherwise the first address of the lookup), every connect attempt
  failing and no cancellation observed at the waits: \<open>checkConnectivity\<close> returns
  \<open>IsSuccess = False\<close> with the error of the last attempt, after exactly \<open>RetryCount\<close>
  connect attempts, each attempt after the first preceded by a wait of \<open>RetryDelay\<close>.
\<close>

theorem checkConnectivity_all_attempts_fail:
  assumes "0 < RetryCount config"
    and "strings_Contains (ServerIP info) ''.'' \<and> ip = ServerIP info \<and> pre = [] \<or>
         \<not> strings_Contains (ServerIP info) ''.'' \<and>
           (\<exists>rest. LookupIP env (ServerIP info) = Inr (ip # rest)) \<and>
           pre = [EvLookup (ServerIP info)]"
    and "\<forall>k < nat (RetryCount config).
           fst (DialTimeout env k (dial_addr ip info) (Timeout config)) \<noteq> None \<and>
           \<not> ctxDone env k"
  shows "checkConnectivity env info config =
           (Returned \<lparr>ServerInfo = info, IsSuccess = False,
              Error = the (fst (DialTimeout env (nat (RetryCount config) - 1)
                                 (dial_addr ip info) (Timeout config))),
              CheckTime = Now env,
              Duration = snd (DialTimeout env (nat (RetryCount config) - 1)
                                 (dial_addr ip info) (Timeout config))\<rparr>,
            pre @ attempts_trace config (dial_addr ip info) 0 (nat (RetryCount config))) \<and>
         dial_attempts (snd (checkConnectivity env info config)) = nat (RetryCount config)"
proof -
  have fails: "\<forall>k. nat 0 \<le> k \<and> k < nat (RetryCount config) \<longrightarrow>
           fst (DialTimeout env k (dial_addr ip info) (Timeout config)) \<noteq> None \<and>
           \<not> ctxDone env k"
    using assms(3) by simp
  have loop: "\<And>result tr. retry_loop env info config ip 0 result None tr =
     (Returned (result\<lparr>Duration := snd (DialTimeout env (nat (RetryCount config) - 1) (dial_addr ip info) (Timeout config)),
                        Error := the (fst (DialTimeout env (nat (RetryCount config) - 1) (dial_addr ip info) (Timeout config)))\<rparr>),
      tr @ attempts_trace config (dial_addr ip info) 0 (nat (RetryCount config)))"
    using retry_loop_all_fail [OF _ assms(1) fails] by simp
  have eq: "checkConnectivity env info config =
           (Returned \<lparr>ServerInfo = info, IsSuccess = False,
              Error = the (fst (DialTimeout env (nat (RetryCount config) - 1)
                                 (dial_addr ip info) (Timeout config))),
              CheckTime = Now env,
              Duration = snd (DialTimeout env (nat (RetryCount config) - 1)
                                 (dial_addr ip info) (Timeout config))\<rparr>,
            pre @ attempts_trace config (dial_addr ip info) 0 (nat (RetryCount config)))"
    using assms(2) loop by (auto simp: checkConnectivity_def Let_def)
  have "dial_attempts pre = 0" using assms(2) by (auto simp: dial_attempts_def)
  then show ?thesis
    unfolding eq by (simp add: dial_attempts_attempts_trace)
qed

theorem checkConnectivity_all_attempts_fail_witness:
  "0 < RetryCount DefaultConfig \<and>
   LookupIP env_refusing (ServerIP info_db) = Inr [''10.0.0.7'', ''10.0.0.8''] \<and>
   checkConnectivity env_refusing info_db DefaultConfig =
     (Returned \<lparr>ServerInfo = info_db, IsSuccess = False, Error = ''connection refused'',
                 CheckTime = 100, Duration = 9\<rparr>,
      [EvLookup ''db'',
       EvDial ''10.0.0.7:5432'' 5000000000, EvWait 1000000000,
       EvDial ''10.0.0.7:5432'' 5000000000, EvWait 1000000000,
       EvDial ''10.0.0.7:5432'' 5000000000]) \<and>
   dial_attempts (snd (checkConnectivity env_refusing info_db DefaultConfig)) = 3"
proof -
  have a: "0 < RetryCount DefaultConfig" by (simp add: DefaultConfig_def)
  have l: "LookupIP env_refusing (ServerIP info_db) = Inr [''10.0.0.7'', ''10.0.0.8'']"
    by (simp add: env_refusing_simps info_db_def)
  have b: "strings_Contains (ServerIP info_db) ''.'' \<and> ''10.0.0.7'' = ServerIP info_db \<and>
             [EvLookup ''db''] = [] \<or>
         \<not> strings_Contains (ServerIP info_db) ''.'' \<and>
           (\<exists>rest. LookupIP env_refusing (ServerIP info_db) = Inr (''10.0.0.7'' # rest)) \<and>
           [EvLookup ''db''] = [EvLookup (ServerIP info_db)]"
    using l by (simp add: info_db_def)
  have c: "\<forall>k < nat (RetryCount DefaultConfig).
           fst (DialTimeout env_refusing k (dial_addr ''10.0.0.7'' info_db) (Timeout DefaultConfig)) \<noteq> None \<and>
           \<not> ctxDone env_refusing k"
    by (simp add: env_refusing_simps)
  have n: "nat (RetryCount DefaultConfig) = 3" by (simp add: DefaultConfig_def)
  have t: "attempts_trace DefaultConfig (dial_addr ''10.0.0.7'' info_db) 0 3 =
      [EvDial ''10.0.0.7:5432'' 5000000000, EvWait 1000000000,
       EvDial ''10.0.0.7:5432'' 5000000000, EvWait 1000000000,
       EvDial ''10.0.0.7:5432'' 5000000000]"
    by (simp add: attempts_trace_def upt_rec info_db_def eval_simps)
  from checkConnectivity_all_attempts_fail [OF a b c] a l show ?thesis
    unfolding n t by (simp add: env_refusing_simps dial_attempts_def)
qed

text \<open>
  C3, as stated, fails on a dotted host name: \<open>example.com\<close> is not a numeric address,
  yet no lookup is made for it and the name itself is handed to the dialer.
\<close>

theorem dotted_hostname_counterexample:
  "\<not> spec_is_numeric_ip (ServerIP info_site) \<and>
   lookups (snd (checkConnectivity env_refusing info_site DefaultConfig)) = 0 \<and>
   hd (snd (checkConnectivity env_refusing info_site DefaultConfig)) =
     EvDial ''example.com:443'' 5000000000"
proof -
  have "\<not> spec_is_numeric_ip (ServerIP info_site)"
    by (simp add: spec_is_numeric_ip_def info_site_def)
  moreover have "strings_Contains (ServerIP info_site) ''.''"
    by (simp add: info_site_def)
  then have "checkConnectivity env_refusing info_site DefaultConfig =
      retry_loop env_refusing info_site DefaultConfig ''example.com'' 0
        \<lparr>ServerInfo = info_site, IsSuccess = False, Error = [], CheckTime = 100, Duration = 0\<rparr>
        None []"
    by (simp add: checkConnectivity_def env_refusing_simps) (simp add: info_site_def)
  moreover have "snd (retry_loop env_refusing info_site DefaultConfig ''example.com'' 0
        \<lparr>ServerInfo = info_site, IsSuccess = False, Error = [], CheckTime = 100, Duration = 0\<rparr>
        None []) =
      [EvDial ''example.com:443'' 5000000000, EvWait 1000000000,
       EvDial ''example.com:443'' 5000000000, EvWait 1000000000,
       EvDial ''example.com:443'' 5000000000]"
    by (simp add: retry_loop.simps env_refusing_simps info_site_def eval_simps)
  ultimately show ?thesis by (simp add: lookups_def)
qed

text \<open>
  C3, amended.  The lookup is made if and only if the host string contains no dot: a
  host containing a dot (a dotted-quad address or a dotted name such as \<open>example.com\<close>)
  is used unchanged with no lookup, and a host without a dot is looked up once, first of
  all, every connect attempt then going to the first address of the answer.
\<close>

theorem checkConnectivity_lookup_iff_no_dot:
  "(if strings_Contains (ServerIP info) ''.'' then
      lookups (snd (checkConnectivity env info config)) = 0 \<and>
      (\<forall>a t. EvDial a t \<in> set (snd (checkConnectivity env info config)) \<longrightarrow>
             a = dial_addr (ServerIP info) info)
    else
      lookups (snd (checkConnectivity env info config)) = 1 \<and>
      hd (snd (checkConnectivity env info config)) = EvLookup (ServerIP info) \<and>
      (\<forall>a t. EvDial a t \<in> set (snd (checkConnectivity env info config)) \<longrightarrow>
             (\<exists>ip rest. LookupIP env (ServerIP info) = Inr (ip # rest) \<and>
                        a = dial_addr ip info)))"
proof (cases "strings_Contains (ServerIP info) ''.''")
  case True
  then have eq: "checkConnectivity env info config =
      retry_loop env info config (ServerIP info) 0
        \<lparr>ServerInfo = info, IsSuccess = False, Error = [], CheckTime = Now env, Duration = 0\<rparr>
        None []"
    by (simp add: checkConnectivity_def)
  have l: "\<And>res. lookups (snd (retry_loop env info config (ServerIP info) 0 res None [])) = 0"
    by (simp add: retry_loop_lookups) (simp add: lookups_def)
  show ?thesis
    using True retry_loop_dial_addr [of _ _ env info config "ServerIP info" 0 _ None "[]"]
    unfolding eq by (auto simp: l)
next
  case False
  show ?thesis
  proof (cases "LookupIP env (ServerIP info)")
    case (Inl err)
    with False show ?thesis
      by (simp add: checkConnectivity_def lookups_def)
  next
    case (Inr ips)
    show ?thesis
    proof (cases ips)
      case Nil
      with False Inr show ?thesis
        by (simp add: checkConnectivity_def lookups_def)
    next
      case (Cons ip rest)
      let ?res = "\<lparr>ServerInfo = info, IsSuccess = False, Error = [], CheckTime = Now env,
                     Duration = 0\<rparr>"
      have eq: "checkConnectivity env info config =
          retry_loop env info config ip 0 ?res None [EvLookup (ServerIP info)]"
        using False Inr Cons by (simp add: checkConnectivity_def)
      obtain suf where suf: "snd (retry_loop env info config ip 0 ?res None [EvLookup (ServerIP info)]) =
          [EvLookup (ServerIP info)] @ suf"
        using retry_loop_trace by blast
      have l: "lookups (snd (retry_loop env info config ip 0 ?res None [EvLookup (ServerIP info)])) = 1"
        by (simp add: retry_loop_lookups) (simp add: lookups_def)
      have d: "\<And>a t. EvDial a t \<in> set (snd (retry_loop env info config ip 0 ?res None [EvLookup (ServerIP info)]))
            \<Longrightarrow> a = dial_addr ip info"
        using retry_loop_dial_addr [of _ _ env info config ip 0 ?res None "[EvLookup (ServerIP info)]"]
        by auto
      show ?thesis
        using False Inr Cons l d unfolding eq by (auto simp: suf)
    qed
  qed
qed

theorem checkConnectivity_lookup_iff_no_dot_witness:
  "\<not> strings_Contains (ServerIP info_db) ''.'' \<and>
   LookupIP env_refusing (ServerIP info_db) = Inr [''10.0.0.7'', ''10.0.0.8''] \<and>
   EvDial ''10.0.0.7:5432'' 5000000000 \<in> set (snd (checkConnectivity env_refusing info_db DefaultConfig)) \<and>
   lookups (snd (checkConnectivity env_refusing info_db DefaultConfig)) = 1 \<and>
   hd (snd (checkConnectivity env_refusing info_db DefaultConfig)) = EvLookup ''db'' \<and>
   (\<exists>ip rest. LookupIP env_refusing (ServerIP info_db) = Inr (ip # rest) \<and>
              ''10.0.0.7:5432'' = dial_addr ip info_db)"
proof -
  have nd: "\<not> strings_Contains (ServerIP info_db) ''.''" by (simp add: info_db_def)
  have l: "LookupIP env_refusing (ServerIP info_db) = Inr [''10.0.0.7'', ''10.0.0.8'']"
    by (simp add: env_refusing_simps info_db_def)
  have "snd (checkConnectivity env_refusing info_db DefaultConfig) =
      snd (retry_loop env_refusing info_db DefaultConfig ''10.0.0.7'' 0
        \<lparr>ServerInfo = info_db, IsSuccess = False, Error = [], CheckTime = 100, Duration = 0\<rparr>
        None [EvLookup ''db''])"
    using nd l by (simp add: checkConnectivity_def env_refusing_simps) (simp add: info_db_def)
  also have "\<dots> = [EvLookup ''db'',
       EvDial ''10.0.0.7:5432'' 5000000000, EvWait 1000000000,
       EvDial ''10.0.0.7:5432'' 5000000000, EvWait 1000000000,
       EvDial ''10.0.0.7:5432'' 5000000000]"
    by (simp add: retry_loop.simps env_refusing_simps info_db_def eval_simps)
  finally have m: "EvDial ''10.0.0.7:5432'' 5000000000 \<in>
      set (snd (checkConnectivity env_refusing info_db DefaultConfig))"
    by simp
  from checkConnectivity_lookup_iff_no_dot [of info_db env_refusing DefaultConfig] nd l m
  show ?thesis by (simp add: info_db_def eval_simps)
qed

lemma checkConnectivity_lookups:
  "lookups (snd (checkConnectivity env info config)) =
     (if strings_Contains (ServerIP info) ''.'' then 0 else 1)"
  by (simp add: checkConnectivity_def Let_def retry_loop_lookups split: sum.splits list.splits)
     (simp add: lookups_def)

lemma checkConnectivity_dns_failure:
  assumes "\<not> strings_Contains (ServerIP info) ''.''"
    and "LookupIP env (ServerIP info) = Inl err"
  shows "checkConnectivity env info config =
     (Returned \<lparr>ServerInfo = info, IsSuccess = False, Error = msg_dns_failed @ err,
                 CheckTime = Now env, Duration = 0\<rparr>,
      [EvLookup (ServerIP info)])"
  using assms by (simp add: checkConnectivity_def Let_def)

lemma env_refusing_run_db:
  "checkConnectivity env_refusing info_db DefaultConfig =
     (Returned \<lparr>ServerInfo = info_db, IsSuccess = False, Error = ''connection refused'',
                 CheckTime = 100, Duration = 9\<rparr>,
      [EvLookup ''db'',
       EvDial ''10.0.0.7:5432'' 5000000000, EvWait 1000000000,
       EvDial ''10.0.0.7:5432'' 5000000000, EvWait 1000000000,
       EvDial ''10.0.0.7:5432'' 5000000000])"
proof -
  have "checkConnectivity env_refusing info_db DefaultConfig =
      retry_loop env_refusing info_db DefaultConfig ''10.0.0.7'' 0
        \<lparr>ServerInfo = info_db, IsSuccess = False, Error = [], CheckTime = 100, Duration = 0\<rparr>
        None [EvLookup ''db'']"
    by (simp add: checkConnectivity_def Let_def env_refusing_simps info_db_def)
  also have "\<dots> = (Returned \<lparr>ServerInfo = info_db, IsSuccess = False,
                 Error = ''connection refused'', CheckTime = 100, Duration = 9\<rparr>,
      [EvLookup ''db'',
       EvDial ''10.0.0.7:5432'' 5000000000, EvWait 1000000000,
       EvDial ''10.0.0.7:5432'' 5000000000, EvWait 1000000000,
       EvDial ''10.0.0.7:5432'' 5000000000])"
    by (simp add: retry_loop.simps env_refusing_simps info_db_def eval_simps)
  finally show ?thesis .
qed

text \<open>
  C4, as stated, fails: with three attempts configured, a host whose lookup fails ends
  the probe after that single lookup, and a host that resolves is looked up once for
  its three connect attempts.
\<close>

theorem resolution_not_retried_counterexample:
  "RetryCount DefaultConfig = 3 \<and>
   snd (checkConnectivity env_refusing info_cache DefaultConfig) = [EvLookup ''cache''] \<and>
   lookups (snd (checkConnectivity env_refusing info_db DefaultConfig)) = 1 \<and>
   dial_attempts (snd (checkConnectivity env_refusing info_db DefaultConfig)) = 3"
proof -
  have "snd (checkConnectivity env_refusing info_cache DefaultConfig) = [EvLookup ''cache'']"
    by (simp add: checkConnectivity_def Let_def env_refusing_simps info_cache_def)
  then show ?thesis
    by (simp add: env_refusing_run_db lookups_def dial_attempts_def) (simp add: DefaultConfig_def)
qed

text \<open>
  C4, amended.  Within a single probe the host is resolved at most once, and the lookup
  is the first call of the probe, before the retry loop: a host without a dot is looked
  up first and nothing after that is a lookup; every connect attempt, the first and
  every retry, dials the one address resolved then (the first address of the answer, or
  the host itself when it contains a dot, in which case there is no lookup at all).  A
  resolution failure ends the probe at once with \<open>IsSuccess = False\<close>, the DNS failure as
  its error, and no connect attempt.
\<close>

theorem checkConnectivity_resolves_once:
  "lookups (snd (checkConnectivity env info config)) \<le> 1 \<and>
   (strings_Contains (ServerIP info) ''.'' \<longrightarrow>
      lookups (snd (checkConnectivity env info config)) = 0 \<and>
      (\<forall>a t. EvDial a t \<in> set (snd (checkConnectivity env info config)) \<longrightarrow>
             a = dial_addr (ServerIP info) info)) \<and>
   (\<not> strings_Contains (ServerIP info) ''.'' \<longrightarrow>
      (\<exists>suf. snd (checkConnectivity env info config) = EvLookup (ServerIP info) # suf \<and>
         lookups suf = 0 \<and>
         (\<forall>ip rest. LookupIP env (ServerIP info) = Inr (ip # rest) \<longrightarrow>
            (\<forall>a t. EvDial a t \<in> set suf \<longrightarrow> a = dial_addr ip info)) \<and>
         (\<forall>err. LookupIP env (ServerIP info) = Inl err \<longrightarrow> suf = []))) \<and>
   (\<forall>err. \<not> strings_Contains (ServerIP info) ''.'' \<and> LookupIP env (ServerIP info) = Inl err \<longrightarrow>
      checkConnectivity env info config =
        (Returned \<lparr>ServerInfo = info, IsSuccess = False, Error = msg_dns_failed @ err,
                    CheckTime = Now env, Duration = 0\<rparr>,
         [EvLookup (ServerIP info)]) \<and>
      dial_attempts (snd (checkConnectivity env info config)) = 0)"
proof -
  let ?res = "\<lparr>ServerInfo = info, IsSuccess = False, Error = [], CheckTime = Now env,
                 Duration = 0\<rparr>"
  have suffix: "\<exists>suf. snd (retry_loop env info config ip 0 ?res None tr) = tr @ suf \<and>
       lookups suf = 0 \<and> (\<forall>a t. EvDial a t \<in> set suf \<longrightarrow> a = dial_addr ip info)" for ip tr
  proof -
    obtain suf where s: "snd (retry_loop env info config ip 0 ?res None tr) = tr @ suf"
      and e: "\<forall>e \<in> set suf. e = EvWait (RetryDelay config) \<or>
              e = EvDial (dial_addr ip info) (Timeout config) \<or> e = EvClose"
      using retry_loop_trace by blast
    from e have "filter is_lookup suf = []" by (auto simp: filter_empty_conv)
    then have "lookups suf = 0" by (simp add: lookups_def)
    moreover from e have "\<forall>a t. EvDial a t \<in> set suf \<longrightarrow> a = dial_addr ip info" by auto
    ultimately show ?thesis using s by blast
  qed
  have dotted: "lookups (snd (checkConnectivity env info config)) = 0 \<and>
      (\<forall>a t. EvDial a t \<in> set (snd (checkConnectivity env info config)) \<longrightarrow>
             a = dial_addr (ServerIP info) info)"
    if d: "strings_Contains (ServerIP info) ''.''"
  proof -
    from d have eq: "checkConnectivity env info config =
        retry_loop env info config (ServerIP info) 0 ?res None []"
      by (simp add: checkConnectivity_def Let_def)
    from suffix [of "ServerIP info" "[]"] show ?thesis unfolding eq by auto
  qed
  have undotted: "\<exists>suf. snd (checkConnectivity env info config) = EvLookup (ServerIP info) # suf \<and>
         lookups suf = 0 \<and>
         (\<forall>ip rest. LookupIP env (ServerIP info) = Inr (ip # rest) \<longrightarrow>
            (\<forall>a t. EvDial a t \<in> set suf \<longrightarrow> a = dial_addr ip info)) \<and>
         (\<forall>err. LookupIP env (ServerIP info) = Inl err \<longrightarrow> suf = [])"
    if nd: "\<not> strings_Contains (ServerIP info) ''.''"
  proof (cases "LookupIP env (ServerIP info)")
    case (Inl err)
    with nd have "snd (checkConnectivity env info config) = EvLookup (ServerIP info) # []"
      by (simp add: checkConnectivity_dns_failure)
    moreover have "lookups [] = 0" by (simp add: lookups_def)
    ultimately show ?thesis using Inl by auto
  next
    case (Inr ips)
    show ?thesis
    proof (cases ips)
      case Nil
      with nd Inr have "snd (checkConnectivity env info config) = EvLookup (ServerIP info) # []"
        by (simp add: checkConnectivity_def Let_def)
      moreover have "lookups [] = 0" by (simp add: lookups_def)
      ultimately show ?thesis using Inr Nil by auto
    next
      case (Cons ip rest)
      with nd Inr have eq: "checkConnectivity env info config =
          retry_loop env info config ip 0 ?res None [EvLookup (ServerIP info)]"
        by (simp add: checkConnectivity_def Let_def)
      from suffix [of ip "[EvLookup (ServerIP info)]"] obtain suf
        where "snd (retry_loop env info config ip 0 ?res None [EvLookup (ServerIP info)]) =
            EvLookup (ServerIP info) # suf"
          and "lookups suf = 0"
          and "\<forall>a t. EvDial a t \<in> set suf \<longrightarrow> a = dial_addr ip info"
        by auto
      then show ?thesis unfolding eq using Inr Cons by auto
    qed
  qed
  have once: "lookups (snd (checkConnectivity env info config)) \<le> 1"
    by (simp add: checkConnectivity_lookups)
  have fail: "\<forall>err. \<not> strings_Contains (ServerIP info) ''.'' \<and>
        LookupIP env (ServerIP info) = Inl err \<longrightarrow>
      checkConnectivity env info config =
        (Returned \<lparr>ServerInfo = info, IsSuccess = False, Error = msg_dns_failed @ err,
                    CheckTime = Now env, Duration = 0\<rparr>,
         [EvLookup (ServerIP info)]) \<and>
      dial_attempts (snd (checkConnectivity env info config)) = 0"
    by (simp add: checkConnectivity_dns_failure dial_attempts_def)
  from once dotted undotted fail show ?thesis by blast
qed

theorem checkConnectivity_resolves_once_witness:
  "\<not> strings_Contains (ServerIP info_cache) ''.'' \<and>
   LookupIP env_refusing (ServerIP info_cache) = Inl ''no such host'' \<and>
   checkConnectivity env_refusing info_cache DefaultConfig =
     (Returned \<lparr>ServerInfo = info_cache, IsSuccess = False,
                 Error = msg_dns_failed @ ''no such host'', CheckTime = 100, Duration = 0\<rparr>,
      [EvLookup ''cache'']) \<and>
   dial_attempts (snd (checkConnectivity env_refusing info_cache DefaultConfig)) = 0 \<and>
   \<not> strings_Contains (ServerIP info_db) ''.'' \<and>
   LookupIP env_refusing (ServerIP info_db) = Inr [''10.0.0.7'', ''10.0.0.8''] \<and>
   snd (checkConnectivity env_refusing info_db DefaultConfig) =
     EvLookup ''db'' #
       [EvDial ''10.0.0.7:5432'' 5000000000, EvWait 1000000000,
        EvDial ''10.0.0.7:5432'' 5000000000, EvWait 1000000000,
        EvDial ''10.0.0.7:5432'' 5000000000] \<and>
   (\<exists>suf. snd (checkConnectivity env_refusing info_db DefaultConfig) = EvLookup ''db'' # suf \<and>
      lookups suf = 0 \<and>
      (\<forall>a t. EvDial a t \<in> set suf \<longrightarrow> a = dial_addr ''10.0.0.7'' info_db)) \<and>
   strings_Contains (ServerIP info_web) ''.'' \<and>
   lookups (snd (checkConnectivity env_refusing info_web DefaultConfig)) = 0"
proof -
  have a: "\<not> strings_Contains (ServerIP info_cache) ''.''" by (simp add: info_cache_def)
  have b: "LookupIP env_refusing (ServerIP info_cache) = Inl ''no such host''"
    by (simp add: env_refusing_simps info_cache_def)
  have c: "\<not> strings_Contains (ServerIP info_db) ''.''" by (simp add: info_db_def)
  have d: "LookupIP env_refusing (ServerIP info_db) = Inr [''10.0.0.7'', ''10.0.0.8'']"
    by (simp add: env_refusing_simps info_db_def)
  have h: "strings_Contains (ServerIP info_web) ''.''" by (simp add: info_web_def)
  have n: "ServerIP info_db = ''db''" by (simp add: info_db_def)
  from checkConnectivity_resolves_once [of env_refusing info_cache DefaultConfig] a b
  have f: "checkConnectivity env_refusing info_cache DefaultConfig =
     (Returned \<lparr>ServerInfo = info_cache, IsSuccess = False,
                 Error = msg_dns_failed @ ''no such host'', CheckTime = 100, Duration = 0\<rparr>,
      [EvLookup ''cache'']) \<and>
   dial_attempts (snd (checkConnectivity env_refusing info_cache DefaultConfig)) = 0"
    by (simp add: env_refusing_simps dial_attempts_def) (simp add: info_cache_def)
  from checkConnectivity_resolves_once [of env_refusing info_db DefaultConfig] c d
  have g: "\<exists>suf. snd (checkConnectivity env_refusing info_db DefaultConfig) = EvLookup ''db'' # suf \<and>
      lookups suf = 0 \<and>
      (\<forall>a t. EvDial a t \<in> set suf \<longrightarrow> a = dial_addr ''10.0.0.7'' info_db)"
    unfolding n by blast
  from checkConnectivity_resolves_once [of env_refusing info_web DefaultConfig] h
  have k: "lookups (snd (checkConnectivity env_refusing info_web DefaultConfig)) = 0"
    by blast
  have tr: "snd (checkConnectivity env_refusing info_db DefaultConfig) =
     EvLookup ''db'' #
       [EvDial ''10.0.0.7:5432'' 5000000000, EvWait 1000000000,
        EvDial ''10.0.0.7:5432'' 5000000000, EvWait 1000000000,
        EvDial ''10.0.0.7:5432'' 5000000000]"
    by (simp add: env_refusing_run_db)
  from a b f c d tr g h k show ?thesis by blast
qed

lemma retry_loop_last_dial:
  assumes "filter is_dial tr = []"
    and "0 < dial_attempts (snd (retry_loop env info config ip i result lastErr tr))"
  shows "last (filter is_dial (snd (retry_loop env info config ip i result lastErr tr))) =
         EvDial (dial_addr ip info) (Timeout config)"
proof -
  let ?tr = "snd (retry_loop env info config ip i result lastErr tr)"
  obtain suf where s: "?tr = tr @ suf"
    and e: "\<forall>e \<in> set suf. e = EvWait (RetryDelay config) \<or>
              e = EvDial (dial_addr ip info) (Timeout config) \<or> e = EvClose"
    using retry_loop_trace by blast
  from assms(2) have ne: "filter is_dial ?tr \<noteq> []" by (simp add: dial_attempts_def)
  then have "last (filter is_dial ?tr) \<in> set (filter is_dial ?tr)" by (rule last_in_set)
  then have "last (filter is_dial ?tr) \<in> set suf" and "is_dial (last (filter is_dial ?tr))"
    using s assms(1) by auto
  with e show ?thesis by auto
qed

text \<open>
  C10.  In every \<open>CheckResult\<close> that \<open>checkConnectivity\<close> returns, \<open>Duration\<close> is the time
  measured around the last connect attempt made (the value of \<open>time.Since(start)\<close> of that
  one call: no retry delay, no earlier attempt), and it is zero when no attempt was made,
  in particular when the lookup failed.
\<close>

theorem checkConnectivity_duration_last_attempt:
  assumes "fst (checkConnectivity env info config) = Returned r"
  shows "(if dial_attempts (snd (checkConnectivity env info config)) = 0 then Duration r = 0
          else \<exists>a t. last (filter is_dial (snd (checkConnectivity env info config))) = EvDial a t \<and>
                 Duration r =
                   snd (DialTimeout env (dial_attempts (snd (checkConnectivity env info config)) - 1) a t)) \<and>
         (\<forall>err. \<not> strings_Contains (ServerIP info) ''.'' \<and>
                LookupIP env (ServerIP info) = Inl err \<longrightarrow> Duration r = 0)"
proof -
  let ?res = "\<lparr>ServerInfo = info, IsSuccess = False, Error = [], CheckTime = Now env,
                 Duration = 0\<rparr>"
  have loop: "(if dial_attempts (snd (retry_loop env info config ip 0 ?res None tr)) = 0
               then Duration r = 0
          else \<exists>a t. last (filter is_dial (snd (retry_loop env info config ip 0 ?res None tr))) = EvDial a t \<and>
                 Duration r =
                   snd (DialTimeout env (dial_attempts (snd (retry_loop env info config ip 0 ?res None tr)) - 1) a t))"
    if ret: "fst (retry_loop env info config ip 0 ?res None tr) = Returned r"
      and tr: "filter is_dial tr = []" for ip tr
  proof -
    have "Duration r = last_elapsed env config (dial_addr ip info)
           (dial_attempts (snd (retry_loop env info config ip 0 ?res None tr)))"
      using tr by (intro retry_loop_duration [OF ret]) (simp_all add: dial_attempts_def last_elapsed_def)
    moreover have "last (filter is_dial (snd (retry_loop env info config ip 0 ?res None tr))) =
         EvDial (dial_addr ip info) (Timeout config)"
      if "0 < dial_attempts (snd (retry_loop env info config ip 0 ?res None tr))"
      using that by (rule retry_loop_last_dial [OF tr])
    ultimately show ?thesis
      by (cases "dial_attempts (snd (retry_loop env info config ip 0 ?res None tr)) = 0")
         (simp_all add: last_elapsed_def)
  qed
  have dns: "\<forall>err. \<not> strings_Contains (ServerIP info) ''.'' \<and>
                LookupIP env (ServerIP info) = Inl err \<longrightarrow> Duration r = 0"
    using assms by (auto simp: checkConnectivity_dns_failure)
  show ?thesis
  proof (cases "strings_Contains (ServerIP info) ''.''")
    case True
    then have eq: "checkConnectivity env info config =
        retry_loop env info config (ServerIP info) 0 ?res None []"
      by (simp add: checkConnectivity_def Let_def)
    from loop [of "ServerIP info" "[]"] assms dns show ?thesis
      unfolding eq by simp
  next
    case False
    show ?thesis
    proof (cases "LookupIP env (ServerIP info)")
      case (Inl err)
      with False assms show ?thesis
        by (auto simp: checkConnectivity_dns_failure dial_attempts_def)
    next
      case (Inr ips)
      show ?thesis
      proof (cases ips)
        case Nil
        with False Inr assms show ?thesis by (simp add: checkConnectivity_def Let_def)
      next
        case (Cons ip rest)
        have eq: "checkConnectivity env info config =
            retry_loop env info config ip 0 ?res None [EvLookup (ServerIP info)]"
          using False Inr Cons by (simp add: checkConnectivity_def Let_def)
        from loop [of ip "[EvLookup (ServerIP info)]"] assms dns show ?thesis
          unfolding eq by simp
      qed
    qed
  qed
qed

theorem checkConnectivity_duration_last_attempt_witness:
  "fst (checkConnectivity env_refusing info_db DefaultConfig) =
     Returned \<lparr>ServerInfo = info_db, IsSuccess = False, Error = ''connection refused'',
                CheckTime = 100, Duration = 9\<rparr> \<and>
   dial_attempts (snd (checkConnectivity env_refusing info_db DefaultConfig)) = 3 \<and>
   last (filter is_dial (snd (checkConnectivity env_refusing info_db DefaultConfig))) =
     EvDial ''10.0.0.7:5432'' 5000000000 \<and>
   (9::int) = snd (DialTimeout env_refusing 2 ''10.0.0.7:5432'' 5000000000) \<and>
   \<not> strings_Contains (ServerIP info_cache) ''.'' \<and>
   LookupIP env_refusing (ServerIP info_cache) = Inl ''no such host'' \<and>
   fst (checkConnectivity env_refusing info_cache DefaultConfig) =
     Returned \<lparr>ServerInfo = info_cache, IsSuccess = False,
                Error = msg_dns_failed @ ''no such host'', CheckTime = 100, Duration = 0\<rparr> \<and>
   Duration \<lparr>ServerInfo = info_cache, IsSuccess = False,
                Error = msg_dns_failed @ ''no such host'', CheckTime = 100, Duration = 0\<rparr> = 0"
proof -
  have a: "fst (checkConnectivity env_refusing info_db DefaultConfig) =
     Returned \<lparr>ServerInfo = info_db, IsSuccess = False, Error = ''connection refused'',
                CheckTime = 100, Duration = 9\<rparr>"
    by (simp add: env_refusing_run_db)
  have b: "\<not> strings_Contains (ServerIP info_cache) ''.''" by (simp add: info_cache_def)
  have c: "LookupIP env_refusing (ServerIP info_cache) = Inl ''no such host''"
    by (simp add: env_refusing_simps info_cache_def)
  have d: "fst (checkConnectivity env_refusing info_cache DefaultConfig) =
     Returned \<lparr>ServerInfo = info_cache, IsSuccess = False,
                Error = msg_dns_failed @ ''no such host'', CheckTime = 100, Duration = 0\<rparr>"
    using b c by (simp add: checkConnectivity_dns_failure env_refusing_simps)
  from checkConnectivity_duration_last_attempt [OF a] checkConnectivity_duration_last_attempt [OF d]
    a b c d
  show ?thesis
    by (simp add: env_refusing_run_db dial_attempts_def env_refusing_simps)
qed

section \<open>Properties of the loader\<close>

lemma parse_entries_spec:
  "parse_entries w folderPath entries allServerInfos out =
     (allServerInfos @ concat (map (records_of w) (conf_paths w folderPath entries)),
      out @ concat (map (warnings_of w) (conf_paths w folderPath entries)))"
proof (induction entries arbitrary: allServerInfos out)
  case Nil
  then show ?case by (simp add: conf_paths_def)
next
  case (Cons entry rest)
  show ?case
  proof (cases "IsDir entry \<or> \<not> strings_HasSuffix (Name entry) ''.conf''")
    case True
    then show ?thesis using Cons by (auto simp: conf_paths_def)
  next
    case False
    then have p: "conf_paths w folderPath (entry # rest) =
        Join (lib w) folderPath (Name entry) # conf_paths w folderPath rest"
      by (simp add: conf_paths_def)
    show ?thesis
      using False
      by (cases "parseServerInfo w (Join (lib w) folderPath (Name entry))")
         (simp_all add: p Cons Let_def records_of_def warnings_of_def)
  qed
qed

lemma world_small_simps:
  "Args world_small = [''checkip'', ''conf'']"
  "lib world_small = lib_small"
  "ReadDir world_small ''conf'' =
     Inr [\<lparr>Name = ''old.conf'', IsDir = True\<rparr>, \<lparr>Name = ''notes.txt'', IsDir = False\<rparr>,
          \<lparr>Name = ''bad.conf'', IsDir = False\<rparr>, \<lparr>Name = ''a.conf'', IsDir = False\<rparr>]"
  "CreateFile world_small p = None"
  "LogWriteFails world_small k = (k = 0)"
  "NowLog world_small = 7"
  "TotalElapsed world_small = 42"
  "net world_small i = env_mixed"
  by (simp_all add: world_small_def)

lemma lib_small_simps:
  "TrimSpace lib_small = trim_blanks"
  "Atoi lib_small = atoi_digits"
  "Join lib_small a b = a @ ''/'' @ b"
  "FormatTime lib_small layout t = itoa t"
  "DurationString lib_small d = itoa d @ ''ns''"
  by (simp_all add: lib_small_def)

lemma parse_small_good:
  "parseServerInfo world_small ''conf/a.conf'' = Inr [info_web, info_db]"
  by (simp add: parseServerInfo_def world_small_def lib_small_simps trim_blanks_def
      strings_Trim_def strings_HasPrefix_def strings_SplitN_colon_2_def atoi_digits_def
      is_digit_def decimal_value_def empty_info_def info_web_def info_db_def Let_def)

lemma parse_small_bad:
  "parseServerInfo world_small ''conf/bad.conf'' =
     Inl (msg_parse_prefix @ '' serverPort '' @ msg_failed_word @ '' eighty: invalid syntax'')"
  by (simp add: parseServerInfo_def world_small_def lib_small_simps trim_blanks_def
      strings_Trim_def strings_HasPrefix_def strings_SplitN_colon_2_def atoi_digits_def
      is_digit_def Let_def)

lemma conf_paths_small:
  "conf_paths world_small ''conf''
     [\<lparr>Name = ''old.conf'', IsDir = True\<rparr>, \<lparr>Name = ''notes.txt'', IsDir = False\<rparr>,
      \<lparr>Name = ''bad.conf'', IsDir = False\<rparr>, \<lparr>Name = ''a.conf'', IsDir = False\<rparr>] =
   [''conf/bad.conf'', ''conf/a.conf'']"
  by (simp add: conf_paths_def strings_HasSuffix_def world_small_simps lib_small_simps)

text \<open>
  C8.  \<open>parseAllConfigFiles\<close> (part\_000) skips every configuration file that fails to
  parse, printing one warning for it, returns the records of all files that parse, in
  directory order, and returns an error exactly when the directory is unreadable or no
  record was found.
\<close>

theorem parseAllConfigFiles_skips_bad_files:
  "parseAllConfigFiles w folderPath = spec_parseAll w folderPath \<and>
   ((\<exists>err. fst (parseAllConfigFiles w folderPath) = Inl err) \<longleftrightarrow>
      (\<exists>err. ReadDir w folderPath = Inl err) \<or>
      (\<exists>entries. ReadDir w folderPath = Inr entries \<and>
         concat (map (records_of w) (conf_paths w folderPath entries)) = []))"
  by (auto simp: parseAllConfigFiles_def spec_parseAll_def parse_entries_spec Let_def
      split: sum.splits)

theorem parseAllConfigFiles_skips_bad_files_witness:
  "parseAllConfigFiles world_small ''conf'' =
     (Inr [info_web, info_db],
      [msg_warning ''conf/bad.conf''
         (msg_parse_prefix @ '' serverPort '' @ msg_failed_word @ '' eighty: invalid syntax'')]) \<and>
   (\<exists>err. fst (parseAllConfigFiles world_small ''nowhere'') = Inl err) \<and>
   (\<exists>err. ReadDir world_small ''nowhere'' = Inl err)"
proof -
  have "spec_parseAll world_small ''conf'' =
     (Inr [info_web, info_db],
      [msg_warning ''conf/bad.conf''
         (msg_parse_prefix @ '' serverPort '' @ msg_failed_word @ '' eighty: invalid syntax'')])"
    by (simp add: spec_parseAll_def world_small_simps conf_paths_small records_of_def
        warnings_of_def parse_small_good parse_small_bad)
  moreover have "\<exists>err. ReadDir world_small ''nowhere'' = Inl err"
    by (simp add: world_small_def)
  moreover have "parseAllConfigFiles world_small ''conf'' = spec_parseAll world_small ''conf''"
    using parseAllConfigFiles_skips_bad_files [of world_small "''conf''"] by (rule conjunct1)
  moreover have "(\<exists>err. fst (parseAllConfigFiles world_small ''nowhere'') = Inl err) \<longleftrightarrow>
      (\<exists>err. ReadDir world_small ''nowhere'' = Inl err) \<or>
      (\<exists>entries. ReadDir world_small ''nowhere'' = Inr entries \<and>
         concat (map (records_of world_small) (conf_paths world_small ''nowhere'' entries)) = [])"
    using parseAllConfigFiles_skips_bad_files [of world_small "''nowhere''"] by (rule conjunct2)
  ultimately show ?thesis by metis
qed

text \<open>
  The earlier variant of checkip3.go behaves differently, by its code: the same
  directory makes it return the error of the first file that fails, and a directory
  without configuration files makes it return an empty list and no error.
\<close>

lemma parseAllConfigFiles3_stops_at_bad_file:
  "parseAllConfigFiles3 (ReadDir world_small) (parseServerInfo world_small) ''conf'' =
     Inl (''error parsing file conf/bad.conf: '' @ msg_parse_prefix @ '' serverPort '' @
          msg_failed_word @ '' eighty: invalid syntax'')"
  by (simp add: parseAllConfigFiles3_def world_small_simps strings_HasSuffix_def
      parse_small_bad)

lemma parseAllConfigFiles3_empty_is_no_error:
  "parseAllConfigFiles3 (\<lambda>p. Inr []) parse folderPath = Inr []"
  by (simp add: parseAllConfigFiles3_def)

section \<open>Properties of the run\<close>

lemma at_pc_iff: "i \<in> at_pc P ws \<longleftrightarrow> i < length ws \<and> P (ws ! i)"
  by (simp add: at_pc_def)

lemma finite_at_pc [simp]: "finite (at_pc P ws)"
  by (simp add: at_pc_def)

lemma at_pc_update:
  "i < length ws \<Longrightarrow>
   at_pc P (ws[i := x]) = (if P x then insert i (at_pc P ws) else at_pc P ws - {i})"
  by (auto simp: at_pc_def nth_list_update)

lemma at_pc_replicate: "\<not> P x \<Longrightarrow> at_pc P (replicate n x) = {}"
  by (auto simp: at_pc_def)

lemma at_pc_Nil [simp]: "at_pc P [] = {}"
  by (simp add: at_pc_def)

lemma card_at_pc_le: "card (at_pc P ws) \<le> length ws"
proof -
  have "at_pc P ws \<subseteq> {..<length ws}" by (auto simp: at_pc_def)
  then have "card (at_pc P ws) \<le> card {..<length ws}" by (intro card_mono) simp_all
  then show ?thesis by simp
qed

lemma worker_step_cases:
  assumes "worker_step w i s = Some s'"
  obtains
    (acquire) "i < length (workers s)" "workers s ! i = WAcquire"
      "int (sem s) < ConcurrentLimit DefaultConfig"
      "s' = s\<lparr>sem := sem s + 1, workers := (workers s)[i := WProbe]\<rparr>"
  | (probed) r tr where "i < length (workers s)" "workers s ! i = WProbe"
      "probe w (infos s) i = (Returned r, tr)"
      "s' = s\<lparr>workers := (workers s)[i := WSend r], net_log := net_log s @ tr\<rparr>"
  | (panicked) p tr where "i < length (workers s)" "workers s ! i = WProbe"
      "probe w (infos s) i = (Panicked p, tr)"
      "s' = s\<lparr>net_log := net_log s @ tr, exit_code := Some 2\<rparr>"
  | (sent) r where "i < length (workers s)" "workers s ! i = WSend r"
      "length (results s) < length (infos s)"
      "s' = s\<lparr>results := results s @ [r], workers := (workers s)[i := WRelease]\<rparr>"
  | (released) "i < length (workers s)" "workers s ! i = WRelease" "0 < sem s"
      "s' = s\<lparr>sem := sem s - 1, workers := (workers s)[i := WDone]\<rparr>"
  | (finished) "i < length (workers s)" "workers s ! i = WDone" "0 < wg s"
      "s' = s\<lparr>wg := wg s - 1, workers := (workers s)[i := WFinished]\<rparr>"
  | (negative) "i < length (workers s)" "workers s ! i = WDone" "wg s = 0"
      "s' = s\<lparr>exit_code := Some 2\<rparr>"
proof -
  from assms have i: "i < length (workers s)"
    by (simp add: worker_step_def split: if_splits)
  show thesis
  proof (cases "workers s ! i")
    case WNotStarted
    with assms i show ?thesis by (simp add: worker_step_def)
  next
    case WAcquire
    with assms i have "int (sem s) < ConcurrentLimit DefaultConfig"
      and "s' = s\<lparr>sem := sem s + 1, workers := (workers s)[i := WProbe]\<rparr>"
      by (simp_all add: worker_step_def split: if_splits)
    with i WAcquire show ?thesis by (rule acquire)
  next
    case WProbe
    obtain out tr where p: "probe w (infos s) i = (out, tr)" by (cases "probe w (infos s) i")
    show ?thesis
    proof (cases out)
      case (Returned r)
      with assms i WProbe p
      have "s' = s\<lparr>workers := (workers s)[i := WSend r], net_log := net_log s @ tr\<rparr>"
        by (simp add: worker_step_def)
      with i WProbe p Returned show ?thesis by (intro probed [of r tr]) simp_all
    next
      case (Panicked q)
      with assms i WProbe p
      have "s' = s\<lparr>net_log := net_log s @ tr, exit_code := Some 2\<rparr>"
        by (simp add: worker_step_def)
      with i WProbe p Panicked show ?thesis by (intro panicked [of q tr]) simp_all
    qed
  next
    case (WSend r)
    with assms i have "length (results s) < length (infos s)"
      and "s' = s\<lparr>results := results s @ [r], workers := (workers s)[i := WRelease]\<rparr>"
      by (simp_all add: worker_step_def split: if_splits)
    with i WSend show ?thesis by (rule sent)
  next
    case WRelease
    with assms i have "0 < sem s"
      and "s' = s\<lparr>sem := sem s - 1, workers := (workers s)[i := WDone]\<rparr>"
      by (simp_all add: worker_step_def split: if_splits)
    with i WRelease show ?thesis by (rule released)
  next
    case WDone
    show ?thesis
    proof (cases "0 < wg s")
      case True
      with assms i WDone
      have "s' = s\<lparr>wg := wg s - 1, workers := (workers s)[i := WFinished]\<rparr>"
        by (simp add: worker_step_def)
      with i WDone True show ?thesis by (rule finished)
    next
      case False
      with assms i WDone have "s' = s\<lparr>exit_code := Some 2\<rparr>"
        by (simp add: worker_step_def)
      with i WDone False show ?thesis by (intro negative) simp_all
    qed
  next
    case WFinished
    with assms i show ?thesis by (simp add: worker_step_def)
  qed
qed

lemma watcher_step_cases:
  assumes "watcher_step s = Some s'"
  obtains
    (waited) "watcher s = WatchWait" "wg s = 0" "s' = s\<lparr>watcher := WatchClose\<rparr>"
  | (closed) "watcher s = WatchClose" "s' = s\<lparr>chan_closed := True, watcher := WatchFinished\<rparr>"
proof (cases "watcher s")
  case WatchNotStarted
  with assms show ?thesis by (simp add: watcher_step_def)
next
  case WatchWait
  with assms have "wg s = 0" and "s' = s\<lparr>watcher := WatchClose\<rparr>"
    by (simp_all add: watcher_step_def split: if_splits)
  with WatchWait show ?thesis by (rule waited)
next
  case WatchClose
  with assms have "s' = s\<lparr>chan_closed := True, watcher := WatchFinished\<rparr>"
    by (simp add: watcher_step_def)
  with WatchClose show ?thesis by (rule closed)
next
  case WatchFinished
  with assms show ?thesis by (simp add: watcher_step_def)
qed

lemma main_step_cases:
  assumes "main_step w s = Some s'"
  obtains
    (start) "mpc s = MStart" "s' = startup w s"
  | (launch) k where "mpc s = MLaunch k" "k < length (infos s)"
      "s' = s\<lparr>wg := wg s + 1, workers := (workers s)[k := WAcquire], mpc := MLaunch (k + 1)\<rparr>"
  | (watch) k where "mpc s = MLaunch k" "\<not> k < length (infos s)"
      "s' = s\<lparr>watcher := WatchWait, mpc := MDrain\<rparr>"
  | (consumed) r rest where "mpc s = MDrain" "results s = r # rest"
      "s' = consume w r (s\<lparr>results := rest\<rparr>)"
  | (returned) "mpc s = MDrain" "results s = []" "chan_closed s" "s' = finish w s"
proof (cases "mpc s")
  case MStart
  with assms have "s' = startup w s" by (simp add: main_step_def)
  with MStart show ?thesis by (rule start)
next
  case (MLaunch k)
  show ?thesis
  proof (cases "k < length (infos s)")
    case True
    with assms MLaunch
    have "s' = s\<lparr>wg := wg s + 1, workers := (workers s)[k := WAcquire], mpc := MLaunch (k + 1)\<rparr>"
      by (simp add: main_step_def)
    with MLaunch True show ?thesis by (rule launch)
  next
    case False
    with assms MLaunch have "s' = s\<lparr>watcher := WatchWait, mpc := MDrain\<rparr>"
      by (simp add: main_step_def)
    with MLaunch False show ?thesis by (rule watch)
  qed
next
  case MDrain
  show ?thesis
  proof (cases "results s")
    case Nil
    with assms MDrain have "chan_closed s" and "s' = finish w s"
      by (simp_all add: main_step_def split: if_splits)
    with MDrain Nil show ?thesis by (rule returned)
  next
    case (Cons r rest)
    with assms MDrain have "s' = consume w r (s\<lparr>results := rest\<rparr>)"
      by (simp add: main_step_def)
    with MDrain Cons show ?thesis by (rule consumed)
  qed
next
  case MAborted
  with assms show ?thesis by (simp add: main_step_def)
next
  case MReturned
  with assms show ?thesis by (simp add: main_step_def)
qed

lemma startup_cases:
  obtains
    (usage) "length (Args w) < 2"
      "startup w s = s\<lparr>console := console s @ [msg_usage @ newline], mpc := MAborted,
                        exit_code := Some 0\<rparr>"
  | (bad_config) err where "2 \<le> length (Args w)"
      "fst (parseAllConfigFiles w (Args w ! 1)) = Inl err"
      "startup w s = s\<lparr>console := console s @ snd (parseAllConfigFiles w (Args w ! 1)) @
                          [msg_config_failed err], mpc := MAborted, exit_code := Some 0\<rparr>"
  | (no_log) serverInfos err where "2 \<le> length (Args w)"
      "fst (parseAllConfigFiles w (Args w ! 1)) = Inr serverInfos"
      "CreateFile w (log_name w) = Some err"
      "startup w s = s\<lparr>console := console s @ snd (parseAllConfigFiles w (Args w ! 1)) @
                          [msg_create_failed err], mpc := MAborted, exit_code := Some 0\<rparr>"
  | (started) serverInfos where "2 \<le> length (Args w)"
      "fst (parseAllConfigFiles w (Args w ! 1)) = Inr serverInfos"
      "serverInfos \<noteq> []" "CreateFile w (log_name w) = None"
      "startup w s = s\<lparr>infos := serverInfos,
          workers := replicate (length serverInfos) WNotStarted,
          logFileName := log_name w,
          console := console s @ snd (parseAllConfigFiles w (Args w ! 1)) @
             [msg_start (int (length serverInfos))],
          mpc := MLaunch 0\<rparr>"
proof (cases "length (Args w) < 2")
  case True
  then have "startup w s = s\<lparr>console := console s @ [msg_usage @ newline], mpc := MAborted,
                        exit_code := Some 0\<rparr>"
    by (simp add: startup_def)
  with True show ?thesis by (rule usage)
next
  case False
  show ?thesis
  proof (cases "fst (parseAllConfigFiles w (Args w ! 1))")
    case (Inl err)
    with False have "startup w s = s\<lparr>console := console s @ snd (parseAllConfigFiles w (Args w ! 1)) @
                          [msg_config_failed err], mpc := MAborted, exit_code := Some 0\<rparr>"
      by (simp add: startup_def Let_def)
    with False Inl show ?thesis by (intro bad_config [of err]) simp_all
  next
    case (Inr serverInfos)
    have ne: "serverInfos \<noteq> []"
      using Inr by (auto simp: parseAllConfigFiles_def Let_def split: sum.splits if_splits)
    show ?thesis
    proof (cases "CreateFile w (log_name w)")
      case None
      with False Inr have "startup w s = s\<lparr>infos := serverInfos,
          workers := replicate (length serverInfos) WNotStarted,
          logFileName := log_name w,
          console := console s @ snd (parseAllConfigFiles w (Args w ! 1)) @
             [msg_start (int (length serverInfos))],
          mpc := MLaunch 0\<rparr>"
        by (simp add: startup_def Let_def)
      with False Inr ne None show ?thesis by (intro started [of serverInfos]) simp_all
    next
      case (Some err)
      with False Inr have "startup w s = s\<lparr>console := console s @ snd (parseAllConfigFiles w (Args w ! 1)) @
                          [msg_create_failed err], mpc := MAborted, exit_code := Some 0\<rparr>"
        by (simp add: startup_def Let_def)
      with False Inr Some show ?thesis by (intro no_log [of serverInfos err]) simp_all
    qed
  qed
qed

lemma consume_expand:
  "consume w r s =
     s\<lparr>successCount := (if IsSuccess r then successCount s + 1 else successCount s),
        failCount := (if IsSuccess r then failCount s else failCount s + 1),
        console := console s @ [formatResult (lib w) r @ newline],
        logfile := (if LogWriteFails w (logWrites s) then logfile s
                    else logfile s @ [formatResult (lib w) r @ newline]),
        logWrites := Suc (logWrites s),
        received := received s @ [r]\<rparr>"
  by (simp add: consume_def write_log_def Let_def)

lemma finish_expand:
  "finish w s =
     s\<lparr>console := console s @
          [summary_text (lib w) (int (length (infos s))) (successCount s) (failCount s)
             (TotalElapsed w) (logFileName s) @ newline],
        logfile := (if LogWriteFails w (logWrites s) then logfile s
                    else logfile s @
          [summary_text (lib w) (int (length (infos s))) (successCount s) (failCount s)
             (TotalElapsed w) (logFileName s) @ newline]),
        logWrites := Suc (logWrites s),
        mpc := MReturned, exit_code := Some 0\<rparr>"
  by (simp add: finish_def write_log_def Let_def)

lemma step_cases:
  assumes "step w t s = Some s'"
  obtains
    (main) "exit_code s = None" "t = TMain" "main_step w s = Some s'"
  | (worker) i where "exit_code s = None" "t = TWorker i" "worker_step w i s = Some s'"
  | (watcher) "exit_code s = None" "t = TWatcher" "watcher_step s = Some s'"
proof -
  from assms have e: "exit_code s = None" by (simp add: step_def split: if_splits)
  show thesis
  proof (cases t)
    case TMain
    with assms e have "main_step w s = Some s'" by (simp add: step_def)
    with e TMain show ?thesis by (rule main)
  next
    case (TWorker i)
    with assms e have "worker_step w i s = Some s'" by (simp add: step_def)
    with e TWorker show ?thesis by (rule worker)
  next
    case TWatcher
    with assms e have "watcher_step s = Some s'" by (simp add: step_def)
    with e TWatcher show ?thesis by (rule watcher)
  qed
qed

lemma inv_init: "inv_shape init_state" "inv_counters init_state" "inv_results w init_state"
  "inv_output w init_state"
  by (simp_all add: inv_shape_def inv_counters_def inv_results_def inv_output_def init_state_def
      DefaultConfig_def)

lemma inv_shape_not_started:
  assumes "inv_shape s" "i < length (workers s)" "workers s ! i \<noteq> WNotStarted"
  shows "mpc s \<noteq> MStart \<and> mpc s \<noteq> MAborted"
  using assms by (auto simp: inv_shape_def)

lemma inv_shape_watcher_early:
  assumes "inv_shape s" "i < length (workers s)" "workers s ! i \<noteq> WFinished"
  shows "watcher s \<noteq> WatchClose \<and> watcher s \<noteq> WatchFinished \<and> \<not> chan_closed s"
  using assms by (auto simp: inv_shape_def)

lemma inv_shape_worker_update:
  assumes "inv_shape s" "i < length (workers s)" "workers s ! i \<noteq> WNotStarted"
    "workers s ! i \<noteq> WFinished" "x \<noteq> WNotStarted"
  shows "inv_shape (s\<lparr>workers := (workers s)[i := x]\<rparr>)"
proof -
  from assms have w: "watcher s \<noteq> WatchClose" "watcher s \<noteq> WatchFinished" "\<not> chan_closed s"
    using inv_shape_watcher_early by blast+
  from assms(1,2,3) have m: "mpc s \<noteq> MStart" "mpc s \<noteq> MAborted"
    using inv_shape_not_started by blast+
  show ?thesis
  proof (cases "mpc s")
    case (MLaunch k)
    with assms w show ?thesis
      by (auto simp: inv_shape_def nth_list_update)
  next
    case MDrain
    with assms w show ?thesis
      by (auto simp: inv_shape_def nth_list_update)
  next
    case MReturned
    with assms w show ?thesis by (auto simp: inv_shape_def)
  qed (use m in simp_all)
qed

lemma inv_shape_cong:
  assumes "workers s' = workers s" "infos s' = infos s" "mpc s' = mpc s"
    "watcher s' = watcher s" "chan_closed s' = chan_closed s"
    "(results s' = []) = (results s = [])" "exit_code s' = exit_code s"
  shows "inv_shape s' = inv_shape s"
  using assms by (simp add: inv_shape_def split: main_pc.splits)

lemma inv_shape_worker_step:
  assumes "inv_shape s" "worker_step w i s = Some s'"
  shows "inv_shape s'"
  using assms(2)
proof (cases rule: worker_step_cases)
  case acquire
  have "inv_shape s' = inv_shape (s\<lparr>workers := (workers s)[i := WProbe]\<rparr>)"
    by (rule inv_shape_cong) (simp_all add: acquire)
  with acquire assms(1) inv_shape_worker_update [of s i WProbe] show ?thesis by simp
next
  case (probed r tr)
  have "inv_shape s' = inv_shape (s\<lparr>workers := (workers s)[i := WSend r]\<rparr>)"
    by (rule inv_shape_cong) (simp_all add: probed)
  with probed assms(1) inv_shape_worker_update [of s i "WSend r"] show ?thesis by simp
next
  case (panicked p tr)
  from assms(1) panicked(1,2) have "mpc s \<noteq> MStart \<and> mpc s \<noteq> MAborted"
    by (intro inv_shape_not_started [of s i]) simp_all
  moreover from assms(1) panicked(1,2) have "\<not> chan_closed s"
    using inv_shape_watcher_early [of s i] by simp
  ultimately show ?thesis using assms(1) panicked(4)
    by (cases "mpc s") (auto simp: inv_shape_def)
next
  case (sent r)
  from assms(1) sent(1,2) have "\<not> chan_closed s"
    using inv_shape_watcher_early [of s i] by simp
  then have "mpc s \<noteq> MReturned" using assms(1) by (auto simp: inv_shape_def)
  then have "inv_shape (s\<lparr>results := results s @ [r]\<rparr>)"
    using assms(1) by (cases "mpc s") (auto simp: inv_shape_def)
  from inv_shape_worker_update [OF this, of i WRelease] sent show ?thesis by simp
next
  case released
  have "inv_shape s' = inv_shape (s\<lparr>workers := (workers s)[i := WDone]\<rparr>)"
    by (rule inv_shape_cong) (simp_all add: released)
  with released assms(1) inv_shape_worker_update [of s i WDone] show ?thesis by simp
next
  case finished
  have "inv_shape s' = inv_shape (s\<lparr>workers := (workers s)[i := WFinished]\<rparr>)"
    by (rule inv_shape_cong) (simp_all add: finished)
  with finished assms(1) inv_shape_worker_update [of s i WFinished] show ?thesis by simp
next
  case negative
  from assms(1) negative(1,2) have "mpc s \<noteq> MStart \<and> mpc s \<noteq> MAborted"
    by (intro inv_shape_not_started [of s i]) simp_all
  moreover from assms(1) negative(1,2) have "\<not> chan_closed s"
    using inv_shape_watcher_early [of s i] by simp
  ultimately show ?thesis using assms(1) negative(4)
    by (cases "mpc s") (auto simp: inv_shape_def)
qed

lemma at_pc_active_empty:
  assumes "card (at_pc active ws) = 0" "i < length ws"
  shows "ws ! i = WNotStarted \<or> ws ! i = WFinished"
proof -
  from assms(1) have "at_pc active ws = {}" by simp
  with assms(2) have "\<not> active (ws ! i)" by (auto simp: at_pc_def)
  then show ?thesis by (cases "ws ! i") simp_all
qed

lemma inv_shape_watcher_step:
  assumes "inv_shape s" "inv_counters s" "watcher_step s = Some s'"
  shows "inv_shape s'"
  using assms(3)
proof (cases rule: watcher_step_cases)
  case waited
  from assms(2) waited(2) have c: "card (at_pc active (workers s)) = 0"
    by (simp add: inv_counters_def)
  from assms(1) waited(1) have m: "mpc s = MDrain"
    by (cases "mpc s") (auto simp: inv_shape_def)
  have "\<forall>i < length (infos s). workers s ! i = WFinished"
  proof (intro allI impI)
    fix i assume "i < length (infos s)"
    with assms(1) have i: "i < length (workers s)" by (simp add: inv_shape_def)
    from at_pc_active_empty [OF c i] assms(1) m i show "workers s ! i = WFinished"
      by (auto simp: inv_shape_def)
  qed
  with assms(1) waited m show ?thesis by (simp add: inv_shape_def)
next
  case closed
  with assms(1) show ?thesis
    by (cases "mpc s") (auto simp: inv_shape_def)
qed

lemma inv_shape_main_step:
  assumes "inv_shape s" "main_step w s = Some s'"
  shows "inv_shape s'"
  using assms(2)
proof (cases rule: main_step_cases)
  case start
  with assms(1) have s: "infos s = []" "workers s = []" "watcher s = WatchNotStarted"
    "\<not> chan_closed s"
    by (auto simp: inv_shape_def)
  show ?thesis
  proof (cases rule: startup_cases [of w s])
    case usage
    with start s show ?thesis by (simp add: inv_shape_def)
  next
    case (bad_config err)
    with start s show ?thesis by (simp add: inv_shape_def)
  next
    case (no_log serverInfos err)
    with start s show ?thesis by (simp add: inv_shape_def)
  next
    case (started serverInfos)
    with start s show ?thesis by (simp add: inv_shape_def)
  qed
next
  case (launch k)
  with assms(1) show ?thesis
    by (auto simp: inv_shape_def nth_list_update)
next
  case (watch k)
  with assms(1) show ?thesis
    by (auto simp: inv_shape_def)
next
  case (consumed r rest)
  with assms(1) show ?thesis
    by (simp add: consume_expand inv_shape_def)
next
  case returned
  with assms(1) show ?thesis
    by (simp add: finish_expand inv_shape_def)
qed

lemma inv_shape_step:
  assumes "inv_shape s" "inv_counters s" "step w t s = Some s'"
  shows "inv_shape s'"
  using assms(3)
proof (cases rule: step_cases)
  case main
  with assms(1) show ?thesis by (auto intro: inv_shape_main_step)
next
  case (worker i)
  with assms(1) show ?thesis by (auto intro: inv_shape_worker_step)
next
  case watcher
  with assms(1,2) show ?thesis by (auto intro: inv_shape_watcher_step)
qed

lemma at_pc_update_same:
  "i < length ws \<Longrightarrow> P x = P (ws ! i) \<Longrightarrow> at_pc P (ws[i := x]) = at_pc P ws"
  by (auto simp: at_pc_def nth_list_update)

lemma at_pc_update_gain:
  "i < length ws \<Longrightarrow> P x \<Longrightarrow> \<not> P (ws ! i) \<Longrightarrow> at_pc P (ws[i := x]) = insert i (at_pc P ws)"
  by (auto simp: at_pc_def nth_list_update)

lemma at_pc_update_lose:
  "i < length ws \<Longrightarrow> \<not> P x \<Longrightarrow> P (ws ! i) \<Longrightarrow> at_pc P (ws[i := x]) = at_pc P ws - {i}"
  by (auto simp: at_pc_def nth_list_update)

lemma card_at_pc_gain:
  "i < length ws \<Longrightarrow> P x \<Longrightarrow> \<not> P (ws ! i) \<Longrightarrow>
   card (at_pc P (ws[i := x])) = Suc (card (at_pc P ws))"
  by (simp add: at_pc_update_gain at_pc_iff)

lemma card_at_pc_lose:
  "i < length ws \<Longrightarrow> \<not> P x \<Longrightarrow> P (ws ! i) \<Longrightarrow>
   card (at_pc P (ws[i := x])) = card (at_pc P ws) - 1"
  by (simp add: at_pc_update_lose at_pc_iff)

lemma card_at_pc_pos:
  "i < length ws \<Longrightarrow> P (ws ! i) \<Longrightarrow> 0 < card (at_pc P ws)"
  by (auto simp: card_gt_0_iff at_pc_iff)

lemma inv_counters_cong:
  assumes "workers s' = workers s" "sem s' = sem s" "wg s' = wg s"
  shows "inv_counters s' = inv_counters s"
  using assms by (simp add: inv_counters_def)

lemma inv_counters_worker_step:
  assumes "inv_counters s" "worker_step w i s = Some s'"
  shows "inv_counters s'"
  using assms(2)
proof (cases rule: worker_step_cases)
  case acquire
  with assms(1) show ?thesis
    by (simp add: inv_counters_def card_at_pc_gain at_pc_update_same)
next
  case (probed r tr)
  with assms(1) show ?thesis
    by (simp add: inv_counters_def at_pc_update_same)
next
  case (panicked p tr)
  with assms(1) show ?thesis by (simp add: inv_counters_def)
next
  case (sent r)
  with assms(1) show ?thesis
    by (simp add: inv_counters_def at_pc_update_same)
next
  case released
  with assms(1) show ?thesis
    by (simp add: inv_counters_def card_at_pc_lose at_pc_update_same)
next
  case finished
  with assms(1) show ?thesis
    by (simp add: inv_counters_def card_at_pc_lose at_pc_update_same)
next
  case negative
  with assms(1) show ?thesis by (simp add: inv_counters_def)
qed

lemma inv_counters_main_step:
  assumes "inv_shape s" "inv_counters s" "main_step w s = Some s'"
  shows "inv_counters s'"
  using assms(3)
proof (cases rule: main_step_cases)
  case start
  with assms(1) have s: "workers s = []" by (auto simp: inv_shape_def)
  with assms(2) have z: "sem s = 0" "wg s = 0" by (simp_all add: inv_counters_def)
  show ?thesis
  proof (cases rule: startup_cases [of w s])
    case usage
    with start s assms(2) show ?thesis by (simp add: inv_counters_def)
  next
    case (bad_config err)
    with start s assms(2) show ?thesis by (simp add: inv_counters_def)
  next
    case (no_log serverInfos err)
    with start s assms(2) show ?thesis by (simp add: inv_counters_def)
  next
    case (started serverInfos)
    with start z show ?thesis
      by (simp add: inv_counters_def at_pc_replicate DefaultConfig_def)
  qed
next
  case (launch k)
  from assms(1) launch(1,2) have k: "k < length (workers s)" "workers s ! k = WNotStarted"
    by (auto simp: inv_shape_def)
  with assms(2) launch show ?thesis
    by (simp add: inv_counters_def card_at_pc_gain at_pc_update_same)
next
  case (watch k)
  with assms(2) show ?thesis by (simp add: inv_counters_def)
next
  case (consumed r rest)
  with assms(2) show ?thesis by (simp add: consume_expand inv_counters_def)
next
  case returned
  with assms(2) show ?thesis by (simp add: finish_expand inv_counters_def)
qed

lemma inv_counters_step:
  assumes "inv_shape s" "inv_counters s" "step w t s = Some s'"
  shows "inv_counters s'"
  using assms(3)
proof (cases rule: step_cases)
  case main
  with assms(1,2) show ?thesis by (auto intro: inv_counters_main_step)
next
  case (worker i)
  with assms(2) show ?thesis by (auto intro: inv_counters_worker_step)
next
  case watcher
  from watcher(3) show ?thesis
  proof (cases rule: watcher_step_cases)
    case waited
    with assms(2) show ?thesis by (simp add: inv_counters_def)
  next
    case closed
    with assms(2) show ?thesis by (simp add: inv_counters_def)
  qed
qed

lemma inv_results_empty:
  assumes "inv_results w s" "workers s = []"
  shows "received s = [] \<and> results s = []"
  using assms by (simp add: inv_results_def)

lemma inv_results_worker_step:
  assumes "inv_results w s" "worker_step w i s = Some s'"
  shows "inv_results w s'"
  using assms(2)
proof (cases rule: worker_step_cases)
  case acquire
  with assms(1) show ?thesis
    by (simp add: inv_results_def at_pc_update_same nth_list_update)
next
  case (probed r tr)
  with assms(1) show ?thesis
    by (simp add: inv_results_def at_pc_update_same nth_list_update)
next
  case (panicked p tr)
  with assms(1) show ?thesis by (simp add: inv_results_def)
next
  case (sent r)
  from assms(1) sent(1,2) have r: "fst (probe w (infos s) i) = Returned r"
    by (simp add: inv_results_def)
  have g: "at_pc has_sent ((workers s)[i := WRelease]) = insert i (at_pc has_sent (workers s))"
    using sent(1,2) by (simp add: at_pc_update_gain)
  have n: "i \<notin> at_pc has_sent (workers s)" using sent(2) by (simp add: at_pc_iff)
  from assms(1) sent r n show ?thesis
    by (simp add: inv_results_def g nth_list_update)
next
  case released
  with assms(1) show ?thesis
    by (simp add: inv_results_def at_pc_update_same nth_list_update)
next
  case finished
  with assms(1) show ?thesis
    by (simp add: inv_results_def at_pc_update_same nth_list_update)
next
  case negative
  with assms(1) show ?thesis by (simp add: inv_results_def)
qed

lemma inv_results_main_step:
  assumes "inv_shape s" "inv_results w s" "main_step w s = Some s'"
  shows "inv_results w s'"
  using assms(3)
proof (cases rule: main_step_cases)
  case start
  with assms(1) have s: "workers s = []" by (auto simp: inv_shape_def)
  with assms(2) have e: "received s = []" "results s = []"
    using inv_results_empty by blast+
  show ?thesis
  proof (cases rule: startup_cases [of w s])
    case usage
    with start s e show ?thesis by (simp add: inv_results_def)
  next
    case (bad_config err)
    with start s e show ?thesis by (simp add: inv_results_def)
  next
    case (no_log serverInfos err)
    with start s e show ?thesis by (simp add: inv_results_def)
  next
    case (started serverInfos)
    with start e show ?thesis
      by (simp add: inv_results_def at_pc_replicate)
  qed
next
  case (launch k)
  from assms(1) launch(1,2) have k: "k < length (workers s)" "workers s ! k = WNotStarted"
    by (auto simp: inv_shape_def)
  with assms(2) launch show ?thesis
    by (simp add: inv_results_def at_pc_update_same nth_list_update)
next
  case (watch k)
  with assms(2) show ?thesis by (simp add: inv_results_def)
next
  case (consumed r rest)
  with assms(2) show ?thesis by (simp add: consume_expand inv_results_def)
next
  case returned
  with assms(2) show ?thesis by (simp add: finish_expand inv_results_def)
qed

lemma inv_results_step:
  assumes "inv_shape s" "inv_results w s" "step w t s = Some s'"
  shows "inv_results w s'"
  using assms(3)
proof (cases rule: step_cases)
  case main
  with assms(1,2) show ?thesis by (auto intro: inv_results_main_step)
next
  case (worker i)
  with assms(2) show ?thesis by (auto intro: inv_results_worker_step)
next
  case watcher
  from watcher(3) show ?thesis
  proof (cases rule: watcher_step_cases)
    case waited
    with assms(2) show ?thesis by (simp add: inv_results_def)
  next
    case closed
    with assms(2) show ?thesis by (simp add: inv_results_def)
  qed
qed

lemma written_append:
  "written w k (xs @ [x]) =
     written w k xs @ (if LogWriteFails w (k + length xs) then [] else [x])"
  by (induction xs arbitrary: k) simp_all

lemma result_lines_append [simp]:
  "result_lines w (rs @ [r]) = result_lines w rs @ [formatResult (lib w) r @ newline]"
  by (simp add: result_lines_def)

lemma length_result_lines [simp]: "length (result_lines w rs) = length rs"
  by (simp add: result_lines_def)

lemma inv_output_worker_step:
  assumes "inv_shape s" "inv_output w s" "worker_step w i s = Some s'"
  shows "inv_output w s'"
proof -
  have m: "mpc s \<noteq> MStart \<and> mpc s \<noteq> MAborted"
    using assms(3)
  proof (cases rule: worker_step_cases)
    case acquire
    with assms(1) show ?thesis by (intro inv_shape_not_started [of s i]) simp_all
  next
    case (probed r tr)
    with assms(1) show ?thesis by (intro inv_shape_not_started [of s i]) simp_all
  next
    case (panicked p tr)
    with assms(1) show ?thesis by (intro inv_shape_not_started [of s i]) simp_all
  next
    case (sent r)
    with assms(1) show ?thesis by (intro inv_shape_not_started [of s i]) simp_all
  next
    case released
    with assms(1) show ?thesis by (intro inv_shape_not_started [of s i]) simp_all
  next
    case finished
    with assms(1) show ?thesis by (intro inv_shape_not_started [of s i]) simp_all
  next
    case negative
    with assms(1) show ?thesis by (intro inv_shape_not_started [of s i]) simp_all
  qed
  have same: "successCount s' = successCount s \<and> failCount s' = failCount s \<and>
      received s' = received s \<and> mpc s' = mpc s \<and> console s' = console s \<and>
      logfile s' = logfile s \<and> logWrites s' = logWrites s \<and> infos s' = infos s \<and>
      logFileName s' = logFileName s"
    using assms(3) by (cases rule: worker_step_cases) simp_all
  with assms(2) m show ?thesis
    by (cases "mpc s") (simp_all add: inv_output_def)
qed

lemma inv_output_main_step:
  assumes "inv_shape s" "inv_output w s" "main_step w s = Some s'"
  shows "inv_output w s'"
  using assms(3)
proof (cases rule: main_step_cases)
  case start
  with assms(2) have e: "console s = []" "received s = []" "net_log s = []" "logfile s = []"
    "successCount s = 0" "failCount s = 0" "logWrites s = 0"
    by (simp_all add: inv_output_def)
  show ?thesis
  proof (cases rule: startup_cases [of w s])
    case usage
    with start e show ?thesis
      by (simp add: inv_output_def startup_aborts_def aborted_console_def)
  next
    case (bad_config err)
    with start e show ?thesis
      by (simp add: inv_output_def startup_aborts_def aborted_console_def)
  next
    case (no_log serverInfos err)
    with start e show ?thesis
      by (simp add: inv_output_def startup_aborts_def aborted_console_def)
  next
    case (started serverInfos)
    with start e assms(2) show ?thesis
      by (simp add: inv_output_def start_console_def result_lines_def startup_aborts_def)
  qed
next
  case (launch k)
  with assms(2) show ?thesis by (simp add: inv_output_def)
next
  case (watch k)
  with assms(2) show ?thesis by (simp add: inv_output_def)
next
  case (consumed r rest)
  with assms(2) show ?thesis
    by (simp add: consume_expand inv_output_def written_append)
next
  case returned
  with assms(2) show ?thesis
    by (simp add: finish_expand inv_output_def written_append)
qed

lemma inv_output_step:
  assumes "inv_shape s" "inv_output w s" "step w t s = Some s'"
  shows "inv_output w s'"
  using assms(3)
proof (cases rule: step_cases)
  case main
  with assms(1,2) show ?thesis by (auto intro: inv_output_main_step)
next
  case (worker i)
  with assms(1,2) show ?thesis by (auto intro: inv_output_worker_step)
next
  case watcher
  from watcher(3) show ?thesis
  proof (cases rule: watcher_step_cases)
    case waited
    with assms(2) show ?thesis by (simp add: inv_output_def split: main_pc.splits)
  next
    case closed
    with assms(2) show ?thesis by (simp add: inv_output_def split: main_pc.splits)
  qed
qed

lemma run_append: "run w (ts @ us) s = (case run w ts s of None \<Rightarrow> None | Some s' \<Rightarrow> run w us s')"
  by (induction ts arbitrary: s) (simp_all split: option.splits)

lemma invariants_run:
  assumes "run w sched s = Some s'"
    and "inv_shape s" "inv_counters s" "inv_results w s" "inv_output w s"
  shows "inv_shape s' \<and> inv_counters s' \<and> inv_results w s' \<and> inv_output w s'"
  using assms
proof (induction sched arbitrary: s)
  case Nil
  then show ?case by simp
next
  case (Cons t ts)
  from Cons.prems(1) obtain s1 where s1: "step w t s = Some s1" and r: "run w ts s1 = Some s'"
    by (auto split: option.splits)
  from s1 Cons.prems have "inv_shape s1" "inv_counters s1" "inv_results w s1" "inv_output w s1"
    by (blast intro: inv_shape_step inv_counters_step inv_results_step inv_output_step)+
  with Cons.IH [OF r] show ?case by blast
qed

lemma invariants_reachable:
  assumes "run w sched init_state = Some s"
  shows "inv_shape s" "inv_counters s" "inv_results w s" "inv_output w s"
  using invariants_run [OF assms] inv_init by blast+

lemma run_last_step:
  assumes "run w sched s0 = Some s"
  shows "sched = [] \<and> s = s0 \<or>
         (\<exists>ts t s1. sched = ts @ [t] \<and> run w ts s0 = Some s1 \<and> step w t s1 = Some s)"
proof (cases sched rule: rev_cases)
  case Nil
  with assms show ?thesis by simp
next
  case (snoc ts t)
  with assms obtain s1 where "run w ts s0 = Some s1" "run w [t] s1 = Some s"
    by (auto simp: run_append split: option.splits)
  then have "step w t s1 = Some s" by (simp split: option.splits)
  with snoc \<open>run w ts s0 = Some s1\<close> show ?thesis by blast
qed

lemma exit_code_step:
  assumes "step w t s = Some s'"
  shows "exit_code s' = None \<or> exit_code s' = Some 2 \<or>
         (exit_code s' = Some 0 \<and> (mpc s' = MAborted \<or> mpc s' = MReturned))"
  using assms
proof (cases rule: step_cases)
  case main
  from main(3) show ?thesis
  proof (cases rule: main_step_cases)
    case start
    then show ?thesis by (cases rule: startup_cases [of w s]) (simp_all add: main(1))
  next
    case (launch k)
    with main(1) show ?thesis by simp
  next
    case (watch k)
    with main(1) show ?thesis by simp
  next
    case (consumed r rest)
    with main(1) show ?thesis by (simp add: consume_expand)
  next
    case returned
    then show ?thesis by (simp add: finish_expand)
  qed
next
  case (worker i)
  from worker(3) show ?thesis
    by (cases rule: worker_step_cases) (simp_all add: worker(1))
next
  case watcher
  from watcher(3) show ?thesis
    by (cases rule: watcher_step_cases) (simp_all add: watcher(1))
qed

lemma exit_code_reachable:
  assumes "run w sched init_state = Some s"
  shows "exit_code s = None \<or> exit_code s = Some 2 \<or>
         (exit_code s = Some 0 \<and> (mpc s = MAborted \<or> mpc s = MReturned))"
proof -
  from run_last_step [OF assms] show ?thesis
  proof (elim disjE conjE exE)
    assume "s = init_state"
    then show ?thesis by (simp add: init_state_def)
  next
    fix ts t s1
    assume "step w t s1 = Some s"
    then show ?thesis by (rule exit_code_step)
  qed
qed

lemma retry_loop_ServerInfo:
  assumes "fst (retry_loop env info config ip i result lastErr tr) = Returned r"
  shows "ServerInfo r = ServerInfo result"
  using assms
proof (induction "nat (RetryCount config - i)" arbitrary: i result lastErr tr)
  case 0
  then have "\<not> i < RetryCount config" by simp
  with 0 show ?case by (auto simp: retry_loop_exit split: option.splits)
next
  case (Suc k)
  show ?case
  proof (cases rule: retry_loop_cases[where i=i and config=config and env=env and ip=ip and info=info])
    case exit
    with Suc.prems show ?thesis by (auto simp: retry_loop_exit split: option.splits)
  next
    case cancel
    with Suc.prems show ?thesis by (auto simp: retry_loop_cancel)
  next
    case connected
    with Suc.prems show ?thesis by (auto simp: retry_loop_connected)
  next
    case (failed err)
    have k: "k = nat (RetryCount config - (i + 1))" using Suc.hyps(2) by simp
    let ?res = "result\<lparr>Duration := snd (DialTimeout env (nat i) (dial_addr ip info) (Timeout config))\<rparr>"
    let ?tr = "(if 0 < i then tr @ [EvWait (RetryDelay config)] else tr) @
          [EvDial (dial_addr ip info) (Timeout config)]"
    have "fst (retry_loop env info config ip (i + 1) ?res (Some err) ?tr) = Returned r"
      using Suc.prems failed by (simp add: retry_loop_failed)
    from Suc.hyps(1)[OF k this] show ?thesis by simp
  qed
qed

lemma checkConnectivity_ServerInfo:
  assumes "fst (checkConnectivity env info config) = Returned r"
  shows "ServerInfo r = info"
proof (cases "strings_Contains (ServerIP info) ''.''")
  case True
  with assms retry_loop_ServerInfo [of env info config "ServerIP info" 0 _ None "[]" r]
  show ?thesis by (simp add: checkConnectivity_def Let_def)
next
  case False
  show ?thesis
  proof (cases "LookupIP env (ServerIP info)")
    case (Inl err)
    with False assms show ?thesis by (auto simp: checkConnectivity_dns_failure)
  next
    case (Inr ips)
    show ?thesis
    proof (cases ips)
      case Nil
      with False Inr assms show ?thesis by (simp add: checkConnectivity_def Let_def)
    next
      case (Cons ip rest)
      with False Inr assms
        retry_loop_ServerInfo [of env info config ip 0 _ None "[EvLookup (ServerIP info)]" r]
      show ?thesis by (simp add: checkConnectivity_def Let_def)
    qed
  qed
qed

lemma checkConnectivity_returns:
  assumes "0 < RetryCount config" "LookupIP env (ServerIP info) \<noteq> Inr []"
  shows "\<exists>r. fst (checkConnectivity env info config) = Returned r"
proof (cases "strings_Contains (ServerIP info) ''.''")
  case True
  with assms(1) retry_loop_returns [of 0 config None env info "ServerIP info" _ "[]"]
  show ?thesis by (auto simp: checkConnectivity_def Let_def)
next
  case False
  show ?thesis
  proof (cases "LookupIP env (ServerIP info)")
    case (Inl err)
    with False show ?thesis by (simp add: checkConnectivity_dns_failure)
  next
    case (Inr ips)
    with assms(2) obtain ip rest where "ips = ip # rest" by (cases ips) auto
    with False Inr assms(1)
      retry_loop_returns [of 0 config None env info ip _ "[EvLookup (ServerIP info)]"]
    show ?thesis by (auto simp: checkConnectivity_def Let_def)
  qed
qed

lemma probe_returns:
  assumes "no_empty_answers w"
  shows "\<exists>r. fst (probe w serverInfos i) = Returned r"
proof -
  have "LookupIP (probe_env w i) (ServerIP (serverInfos ! i)) \<noteq> Inr []"
    using assms by (simp add: no_empty_answers_def probe_env_def)
  then show ?thesis
    unfolding probe_def by (intro checkConnectivity_returns) (simp_all add: DefaultConfig_def)
qed

lemma no_crash_step:
  assumes "no_empty_answers w" "inv_counters s" "step w t s = Some s'"
  shows "exit_code s' \<noteq> Some 2"
  using assms(3)
proof (cases rule: step_cases)
  case main
  from main(3) show ?thesis
  proof (cases rule: main_step_cases)
    case start
    then show ?thesis by (cases rule: startup_cases [of w s]) (simp_all add: main(1))
  next
    case (launch k)
    with main(1) show ?thesis by simp
  next
    case (watch k)
    with main(1) show ?thesis by simp
  next
    case (consumed r rest)
    with main(1) show ?thesis by (simp add: consume_expand)
  next
    case returned
    then show ?thesis by (simp add: finish_expand)
  qed
next
  case (worker i)
  from worker(3) show ?thesis
  proof (cases rule: worker_step_cases)
    case (panicked p tr)
    with probe_returns [OF assms(1), of "infos s" i] show ?thesis by simp
  next
    case negative
    from negative(1,2) have "0 < card (at_pc active (workers s))"
      by (intro card_at_pc_pos [of i]) simp_all
    with assms(2) negative(3) show ?thesis by (simp add: inv_counters_def)
  qed (simp_all add: worker(1))
next
  case watcher
  from watcher(3) show ?thesis
    by (cases rule: watcher_step_cases) (simp_all add: watcher(1))
qed

lemma no_crash_reachable:
  assumes "no_empty_answers w" "run w sched init_state = Some s"
  shows "exit_code s \<noteq> Some 2"
proof -
  from run_last_step [OF assms(2)] show ?thesis
  proof (elim disjE conjE exE)
    assume "s = init_state"
    then show ?thesis by (simp add: init_state_def)
  next
    fix ts t s1
    assume r: "run w ts init_state = Some s1" and st: "step w t s1 = Some s"
    from r have "inv_counters s1" by (rule invariants_reachable(2))
    from no_crash_step [OF assms(1) this st] show ?thesis .
  qed
qed

lemma run_first_step: "run w [TMain] init_state = Some (startup w init_state)"
  by (simp add: step_def main_step_def init_state_def)

lemma world_no_args_simps:
  "Args world_no_args = [''checkip'']"
  by (simp add: world_no_args_def world_small_def)

lemma probe_small_0:
  "probe world_small [info_web, info_db] 0 =
     (Returned \<lparr>ServerInfo = info_web, IsSuccess = True, Error = [], CheckTime = 100,
                 Duration = 3\<rparr>,
      [EvDial ''10.0.0.1:80'' 5000000000, EvClose])"
  by (simp add: probe_def probe_env_def world_small_simps env_mixed_def checkConnectivity_def
      Let_def info_web_def retry_loop.simps eval_simps)

lemma probe_small_1:
  "probe world_small [info_web, info_db] (Suc 0) =
     (Returned \<lparr>ServerInfo = info_db, IsSuccess = False, Error = ''connection refused'',
                 CheckTime = 100, Duration = 9\<rparr>,
      [EvLookup ''db'', EvDial ''10.0.0.7:5432'' 5000000000, EvWait 1000000000,
       EvDial ''10.0.0.7:5432'' 5000000000, EvWait 1000000000,
       EvDial ''10.0.0.7:5432'' 5000000000])"
  by (simp add: probe_def probe_env_def world_small_simps env_mixed_def checkConnectivity_def
      Let_def info_db_def retry_loop.simps eval_simps)

lemma parse_small:
  "parseAllConfigFiles world_small ''conf'' =
     (Inr [info_web, info_db],
      [msg_warning ''conf/bad.conf''
         (msg_parse_prefix @ '' serverPort '' @ msg_failed_word @ '' eighty: invalid syntax'')])"
  by (simp add: parseAllConfigFiles_def world_small_simps parse_entries_spec conf_paths_small
      records_of_def warnings_of_def parse_small_good parse_small_bad)

lemmas run_simps =
  step_def main_step_def startup_def Let_def init_state_def worker_step_def watcher_step_def
  consume_expand finish_expand DefaultConfig_def

lemma run_small:
  "\<exists>s. run world_small sched_small init_state = Some s \<and> mpc s = MReturned \<and>
       exit_code s = Some 0 \<and> chan_closed s \<and> workers s = [WFinished, WFinished] \<and>
       infos s = [info_web, info_db] \<and>
       received s =
         [\<lparr>ServerInfo = info_web, IsSuccess = True, Error = [], CheckTime = 100,
            Duration = 3\<rparr>,
          \<lparr>ServerInfo = info_db, IsSuccess = False, Error = ''connection refused'',
            CheckTime = 100, Duration = 9\<rparr>] \<and>
       successCount s = 1 \<and> failCount s = 1"
  by (simp add: sched_small_def run_simps world_small_simps parse_small probe_small_0
      probe_small_1)

text \<open>
  C9, as stated, fails on its first part: started without the directory argument, the
  program prints the usage line and \<open>main\<close> returns, which ends the process with status 0.
\<close>

theorem missing_argument_exit_counterexample:
  "length (Args world_no_args) < 2 \<and>
   map_option exit_code (run world_no_args [TMain] init_state) = Some (Some 0) \<and>
   map_option console (run world_no_args [TMain] init_state) = Some [msg_usage @ newline]"
  by (simp add: run_simps world_no_args_simps)

lemma all_finished_when_returned:
  assumes "inv_shape s" "mpc s = MReturned"
  shows "at_pc has_sent (workers s) = {0..<length (infos s)}" "results s = []"
proof -
  from assms have "chan_closed s" and r: "results s = []" and l: "length (workers s) = length (infos s)"
    by (simp_all add: inv_shape_def)
  with assms(1) have "\<forall>i < length (infos s). workers s ! i = WFinished"
    by (simp add: inv_shape_def)
  with l show "at_pc has_sent (workers s) = {0..<length (infos s)}"
    by (auto simp: at_pc_def)
  from r show "results s = []" .
qed

lemma returned_all_received:
  assumes "inv_shape s" "inv_results w s" "mpc s = MReturned"
  shows "image_mset Returned (mset (received s)) =
         mset (map (\<lambda>i. fst (probe w (infos s) i)) [0..<length (infos s)])"
proof -
  from assms(2) all_finished_when_returned [OF assms(1,3)]
  have "image_mset Returned (mset (received s)) =
        image_mset (\<lambda>i. fst (probe w (infos s) i)) (mset_set {0..<length (infos s)})"
    by (simp add: inv_results_def)
  also have "mset_set {0..<length (infos s)} = mset [0..<length (infos s)]"
    by (simp add: mset_upt)
  finally show ?thesis by simp
qed

lemma returned_length:
  assumes "inv_shape s" "inv_results w s" "mpc s = MReturned"
  shows "length (received s) = length (infos s)"
proof -
  have "size (image_mset Returned (mset (received s))) =
        size (mset (map (\<lambda>i. fst (probe w (infos s) i)) [0..<length (infos s)]))"
    by (simp only: returned_all_received [OF assms])
  then show ?thesis by simp
qed

lemma returned_records:
  assumes "inv_shape s" "inv_results w s" "mpc s = MReturned"
  shows "mset (map ServerInfo (received s)) = mset (infos s)"
proof -
  let ?g = "\<lambda>i. fst (probe w (infos s) i)"
  let ?p = "\<lambda>out. case out of Returned r \<Rightarrow> ServerInfo r | Panicked q \<Rightarrow> empty_info"
  note eq = returned_all_received [OF assms]
  have each: "?p (?g i) = infos s ! i" if "i < length (infos s)" for i
  proof -
    from that have "?g i \<in># mset (map ?g [0..<length (infos s)])" by simp
    with eq have "?g i \<in># image_mset Returned (mset (received s))" by simp
    then obtain r where r: "?g i = Returned r" by auto
    then have "ServerInfo r = infos s ! i"
      unfolding probe_def by (rule checkConnectivity_ServerInfo)
    with r show ?thesis by simp
  qed
  have "mset (map ServerInfo (received s)) = image_mset ?p (image_mset Returned (mset (received s)))"
    by (simp add: multiset.map_comp comp_def)
  also have "\<dots> = image_mset ?p (mset (map ?g [0..<length (infos s)]))"
    by (simp only: eq)
  also have "\<dots> = mset (map (\<lambda>i. ?p (?g i)) [0..<length (infos s)])"
    by (simp only: mset_map multiset.map_comp comp_def)
  also have "map (\<lambda>i. ?p (?g i)) [0..<length (infos s)] = map (\<lambda>i. infos s ! i) [0..<length (infos s)]"
    using each by simp
  also have "\<dots> = infos s" by (rule map_nth)
  finally show ?thesis .
qed

lemma counts_sum:
  "int (length (filter P xs)) + int (length (filter (\<lambda>x. \<not> P x) xs)) = int (length xs)"
  using sum_length_filter_compl [of P xs] by linarith

lemma received_bound:
  assumes "inv_shape s" "inv_results w s"
  shows "length (received s) + length (results s) \<le> length (infos s)"
proof -
  have "size (image_mset Returned (mset (received s @ results s))) =
        size (image_mset (\<lambda>i. fst (probe w (infos s) i)) (mset_set (at_pc has_sent (workers s))))"
    using assms(2) by (simp only: inv_results_def)
  then have "length (received s) + length (results s) = card (at_pc has_sent (workers s))"
    by simp
  with card_at_pc_le [of has_sent "workers s"] assms(1) show ?thesis
    by (simp add: inv_shape_def)
qed

lemma sum_list_rank_update:
  fixes f :: "'a \<Rightarrow> nat"
  shows "i < length ws \<Longrightarrow>
         sum_list (map f (ws[i := x])) + f (ws ! i) = sum_list (map f ws) + f x"
proof (induction ws arbitrary: i)
  case Nil
  then show ?case by simp
next
  case (Cons a ws)
  show ?case
  proof (cases i)
    case 0
    then show ?thesis by simp
  next
    case (Suc j)
    with Cons.prems have "j < length ws" by simp
    from Cons.IH [OF this] Suc show ?thesis by simp
  qed
qed

lemma rank_le_sum:
  fixes f :: "'a \<Rightarrow> nat"
  shows "i < length ws \<Longrightarrow> f (ws ! i) \<le> sum_list (map f ws)"
proof (induction ws arbitrary: i)
  case Nil
  then show ?case by simp
next
  case (Cons a ws)
  show ?case
  proof (cases i)
    case 0
    then show ?thesis by simp
  next
    case (Suc j)
    with Cons.prems have "j < length ws" by simp
    from Cons.IH [OF this] Suc show ?thesis by simp
  qed
qed

lemma main_rank_cong:
  assumes "mpc s' = mpc s" "infos s' = infos s" "received s' = received s"
  shows "main_rank s' = main_rank s"
  using assms by (simp add: main_rank_def split: main_pc.splits)

lemma remaining_cong:
  assumes "exit_code s' = exit_code s" "mpc s' = mpc s" "infos s' = infos s"
    "received s' = received s" "workers s' = workers s" "watcher s' = watcher s"
  shows "remaining s' = remaining s"
  using assms main_rank_cong [of s' s] by (simp add: remaining_def)

lemma worker_rank_step:
  assumes "i < length (workers s)" "exit_code s = None"
    "Suc (worker_rank x) = worker_rank (workers s ! i)"
  shows "remaining (s\<lparr>workers := (workers s)[i := x]\<rparr>) < remaining s"
proof -
  have "main_rank (s\<lparr>workers := (workers s)[i := x]\<rparr>) = main_rank s"
    by (rule main_rank_cong) simp_all
  with assms sum_list_rank_update [of i "workers s" worker_rank x] show ?thesis
    by (simp add: remaining_def)
qed

lemma remaining_worker_step:
  assumes "exit_code s = None" "worker_step w i s = Some s'"
  shows "remaining s' < remaining s \<and> infos s' = infos s"
  using assms(2)
proof (cases rule: worker_step_cases)
  case acquire
  have "remaining s' = remaining (s\<lparr>workers := (workers s)[i := WProbe]\<rparr>)"
    by (rule remaining_cong) (simp_all add: acquire)
  with worker_rank_step [of i s WProbe] acquire assms(1) show ?thesis by simp
next
  case (probed r tr)
  have "remaining s' = remaining (s\<lparr>workers := (workers s)[i := WSend r]\<rparr>)"
    by (rule remaining_cong) (simp_all add: probed)
  with worker_rank_step [of i s "WSend r"] probed assms(1) show ?thesis by simp
next
  case (panicked p tr)
  from rank_le_sum [of i "workers s" worker_rank] panicked(1,2)
  have "0 < remaining s" using assms(1) by (simp add: remaining_def)
  with panicked show ?thesis by (simp add: remaining_def)
next
  case (sent r)
  have "remaining s' = remaining (s\<lparr>workers := (workers s)[i := WRelease]\<rparr>)"
    by (rule remaining_cong) (simp_all add: sent)
  with worker_rank_step [of i s WRelease] sent assms(1) show ?thesis by simp
next
  case released
  have "remaining s' = remaining (s\<lparr>workers := (workers s)[i := WDone]\<rparr>)"
    by (rule remaining_cong) (simp_all add: released)
  with worker_rank_step [of i s WDone] released assms(1) show ?thesis by simp
next
  case finished
  have "remaining s' = remaining (s\<lparr>workers := (workers s)[i := WFinished]\<rparr>)"
    by (rule remaining_cong) (simp_all add: finished)
  with worker_rank_step [of i s WFinished] finished assms(1) show ?thesis by simp
next
  case negative
  from rank_le_sum [of i "workers s" worker_rank] negative(1,2)
  have "0 < remaining s" using assms(1) by (simp add: remaining_def)
  with negative show ?thesis by (simp add: remaining_def)
qed

lemma remaining_main_step:
  assumes "inv_shape s" "inv_results w s" "exit_code s = None" "mpc s \<noteq> MStart"
    "main_step w s = Some s'"
  shows "remaining s' < remaining s \<and> infos s' = infos s"
  using assms(5)
proof (cases rule: main_step_cases)
  case start
  with assms(4) show ?thesis by simp
next
  case (launch k)
  from assms(1) launch(1,2) have k: "k < length (workers s)" "workers s ! k = WNotStarted"
    by (auto simp: inv_shape_def)
  from sum_list_rank_update [of k "workers s" worker_rank WAcquire] k
  have "sum_list (map worker_rank ((workers s)[k := WAcquire])) = sum_list (map worker_rank (workers s))"
    by simp
  with launch assms(3) show ?thesis
    by (simp add: remaining_def main_rank_def)
next
  case (watch k)
  from assms(1) watch(1) have "watcher s = WatchNotStarted" by (simp add: inv_shape_def)
  with watch assms(3) show ?thesis
    by (simp add: remaining_def main_rank_def)
next
  case (consumed r rest)
  from received_bound [OF assms(1,2)] consumed(2)
  have "length (received s) < length (infos s)" by simp
  with consumed assms(3) show ?thesis
    by (simp add: remaining_def main_rank_def consume_expand)
next
  case returned
  with assms(3) show ?thesis
    by (simp add: remaining_def main_rank_def finish_expand)
qed

lemma remaining_step:
  assumes "inv_shape s" "inv_results w s" "mpc s \<noteq> MStart" "step w t s = Some s'"
  shows "remaining s' < remaining s \<and> infos s' = infos s"
  using assms(4)
proof (cases rule: step_cases)
  case main
  from remaining_main_step [OF assms(1,2) main(1) assms(3) main(3)] show ?thesis .
next
  case (worker i)
  from remaining_worker_step [OF worker(1) worker(3)] show ?thesis .
next
  case watcher
  from watcher(3) show ?thesis
  proof (cases rule: watcher_step_cases)
    case waited
    have "main_rank s' = main_rank s" by (rule main_rank_cong) (simp_all add: waited)
    with waited watcher(1) show ?thesis by (simp add: remaining_def)
  next
    case closed
    have "main_rank s' = main_rank s" by (rule main_rank_cong) (simp_all add: closed)
    with closed watcher(1) show ?thesis by (simp add: remaining_def)
  qed
qed

lemma mpc_step_not_start:
  assumes "step w t s = Some s'" "mpc s \<noteq> MStart"
  shows "mpc s' \<noteq> MStart"
  using assms(1)
proof (cases rule: step_cases)
  case main
  from main(3) assms(2) show ?thesis
    by (cases rule: main_step_cases) (simp_all add: consume_expand finish_expand)
next
  case (worker i)
  from worker(3) assms(2) show ?thesis by (cases rule: worker_step_cases) simp_all
next
  case watcher
  from watcher(3) assms(2) show ?thesis by (cases rule: watcher_step_cases) simp_all
qed

lemma run_length_bound:
  assumes "run w sched s = Some s'"
    and "inv_shape s" "inv_counters s" "inv_results w s" "mpc s \<noteq> MStart"
  shows "length sched + remaining s' \<le> remaining s \<and> infos s' = infos s"
  using assms
proof (induction sched arbitrary: s)
  case Nil
  then show ?case by simp
next
  case (Cons t ts)
  from Cons.prems(1) obtain s1 where s1: "step w t s = Some s1" and r: "run w ts s1 = Some s'"
    by (auto split: option.splits)
  from s1 Cons.prems have i: "inv_shape s1" "inv_counters s1" "inv_results w s1"
    by (blast intro: inv_shape_step inv_counters_step inv_results_step)+
  from mpc_step_not_start [OF s1 Cons.prems(5)] have m: "mpc s1 \<noteq> MStart" .
  from remaining_step [OF Cons.prems(2,4,5) s1]
  have d: "remaining s1 < remaining s" "infos s1 = infos s" by simp_all
  from Cons.IH [OF r i m] d show ?case by simp
qed

lemma run_stops_after_exit:
  assumes "run w sched s = Some s'" "exit_code s \<noteq> None"
  shows "sched = [] \<and> s' = s"
  using assms by (cases sched) (simp_all add: step_def)

lemma first_step_is_startup:
  assumes "step w t init_state = Some s1"
  shows "t = TMain \<and> s1 = startup w init_state"
  using assms
  by (cases t) (simp_all add: step_def main_step_def worker_step_def watcher_step_def
      init_state_def)

lemma remaining_startup:
  "remaining (startup w init_state) \<le> 7 * length (infos (startup w init_state)) + 4"
proof (cases rule: startup_cases [of w init_state])
  case usage
  then show ?thesis by (simp add: remaining_def)
next
  case (bad_config err)
  then show ?thesis by (simp add: remaining_def)
next
  case (no_log serverInfos err)
  then show ?thesis by (simp add: remaining_def)
next
  case (started serverInfos)
  have "sum_list (map worker_rank (replicate n WNotStarted)) = 5 * n" for n
    by (induction n) simp_all
  with started show ?thesis
    by (simp add: remaining_def main_rank_def init_state_def)
qed

lemma run_terminates:
  assumes "run w sched init_state = Some s"
  shows "length sched \<le> 7 * length (infos s) + 5"
proof (cases sched)
  case Nil
  then show ?thesis by simp
next
  case (Cons t ts)
  with assms obtain s1 where s1: "step w t init_state = Some s1" and r: "run w ts s1 = Some s"
    by (auto split: option.splits)
  from first_step_is_startup [OF s1] have st: "s1 = startup w init_state" by simp
  from s1 inv_init(1,2) have i1: "inv_shape s1" "inv_counters s1"
    by (blast intro: inv_shape_step inv_counters_step)+
  from s1 inv_init(1) inv_init(3) [of w] have i2: "inv_results w s1"
    by (blast intro: inv_results_step)
  note i = i1 i2
  have m: "mpc s1 \<noteq> MStart"
    unfolding st by (cases rule: startup_cases [of w init_state]) simp_all
  from run_length_bound [OF r i m]
  have "length ts + remaining s \<le> remaining s1" "infos s = infos s1" by simp_all
  with remaining_startup [of w] st Cons show ?thesis by simp
qed

lemma holding_worker_enabled:
  assumes "inv_counters s" "i < length (workers s)" "holding (workers s ! i)"
    "results s = []" "length (workers s) = length (infos s)"
  shows "worker_step w i s \<noteq> None"
proof (cases "workers s ! i")
  case WProbe
  with assms(2) show ?thesis
    by (cases "probe w (infos s) i"; cases "fst (probe w (infos s) i)")
       (simp_all add: worker_step_def)
next
  case (WSend r)
  from assms(2,5) have "0 < length (infos s)" by (cases "infos s") simp_all
  with WSend assms(2,4) show ?thesis by (simp add: worker_step_def)
next
  case WRelease
  from card_at_pc_pos [of i "workers s" holding] assms(2,3)
  have "0 < card (at_pc holding (workers s))" by simp
  with assms(1) have "0 < sem s" by (simp add: inv_counters_def)
  with WRelease assms(2) show ?thesis by (simp add: worker_step_def)
qed (use assms(3) in simp_all)

lemma active_worker_enabled:
  assumes "inv_counters s" "i < length (workers s)" "active (workers s ! i)"
    "results s = []" "length (workers s) = length (infos s)"
  shows "\<exists>j. worker_step w j s \<noteq> None"
proof (cases "workers s ! i")
  case WAcquire
  show ?thesis
  proof (cases "int (sem s) < ConcurrentLimit DefaultConfig")
    case True
    with WAcquire assms(2) have "worker_step w i s \<noteq> None" by (simp add: worker_step_def)
    then show ?thesis by blast
  next
    case False
    then have "0 < sem s" by (simp add: DefaultConfig_def)
    with assms(1) have "at_pc holding (workers s) \<noteq> {}"
      by (auto simp: inv_counters_def)
    then obtain j where "j < length (workers s)" "holding (workers s ! j)"
      by (auto simp: at_pc_def)
    from holding_worker_enabled [OF assms(1) this assms(4,5)] show ?thesis by blast
  qed
next
  case WProbe
  then have "holding (workers s ! i)" by simp
  from holding_worker_enabled [OF assms(1,2) this assms(4,5)] show ?thesis by blast
next
  case (WSend r)
  then have "holding (workers s ! i)" by simp
  from holding_worker_enabled [OF assms(1,2) this assms(4,5)] show ?thesis by blast
next
  case WRelease
  then have "holding (workers s ! i)" by simp
  from holding_worker_enabled [OF assms(1,2) this assms(4,5)] show ?thesis by blast
next
  case WDone
  with assms(2) have "worker_step w i s \<noteq> None" by (simp add: worker_step_def)
  then show ?thesis by blast
qed (use assms(3) in simp_all)

lemma progress:
  assumes "inv_shape s" "inv_counters s" "exit_code s = None"
  shows "\<exists>t. step w t s \<noteq> None"
proof (cases "mpc s")
  case MStart
  with assms(3) have "step w TMain s \<noteq> None" by (simp add: step_def main_step_def)
  then show ?thesis by blast
next
  case (MLaunch k)
  with assms(3) have "step w TMain s \<noteq> None" by (simp add: step_def main_step_def)
  then show ?thesis by blast
next
  case MAborted
  with assms(1,3) show ?thesis by (simp add: inv_shape_def)
next
  case MReturned
  with assms(1,3) show ?thesis by (simp add: inv_shape_def)
next
  case MDrain
  show ?thesis
  proof (cases "results s = [] \<and> \<not> chan_closed s")
    case False
    with MDrain assms(3) have "step w TMain s \<noteq> None"
      by (cases "results s") (simp_all add: step_def main_step_def)
    then show ?thesis by blast
  next
    case True
    with assms(1) MDrain have w: "watcher s = WatchWait \<or> watcher s = WatchClose"
      by (cases "watcher s") (simp_all add: inv_shape_def)
    show ?thesis
    proof (cases "watcher s = WatchClose \<or> wg s = 0")
      case True
      with w assms(3) have "step w TWatcher s \<noteq> None"
        by (auto simp: step_def watcher_step_def)
      then show ?thesis by blast
    next
      case False
      with assms(2) have "at_pc active (workers s) \<noteq> {}"
        by (auto simp: inv_counters_def)
      then obtain i where i: "i < length (workers s)" "active (workers s ! i)"
        by (auto simp: at_pc_def)
      from assms(1) have l: "length (workers s) = length (infos s)" by (simp add: inv_shape_def)
      from active_worker_enabled [OF assms(2) i _ l, of w] True
      obtain j where "worker_step w j s \<noteq> None" by blast
      with assms(3) have "step w (TWorker j) s \<noteq> None" by (simp add: step_def)
      then show ?thesis by blast
    qed
  qed
qed

lemma run_can_finish_from:
  assumes "inv_shape s" "inv_counters s" "inv_results w s" "mpc s \<noteq> MStart"
  shows "\<exists>ts s'. run w ts s = Some s' \<and> exit_code s' \<noteq> None"
  using assms
proof (induction "remaining s" arbitrary: s rule: less_induct)
  case less
  show ?case
  proof (cases "exit_code s = None")
    case False
    then have "run w [] s = Some s \<and> exit_code s \<noteq> None" by simp
    then show ?thesis by blast
  next
    case True
    from progress [OF less.prems(1,2) True, of w]
    obtain t s1 where s1: "step w t s = Some s1" by auto
    from remaining_step [OF less.prems(1,3,4) s1] have d: "remaining s1 < remaining s" by simp
    from s1 less.prems have i: "inv_shape s1" "inv_counters s1" "inv_results w s1"
      by (blast intro: inv_shape_step inv_counters_step inv_results_step)+
    from mpc_step_not_start [OF s1 less.prems(4)] have m: "mpc s1 \<noteq> MStart" .
    from less.hyps [OF d i m] obtain ts s' where "run w ts s1 = Some s'" "exit_code s' \<noteq> None"
      by blast
    with s1 have "run w (t # ts) s = Some s' \<and> exit_code s' \<noteq> None" by simp
    then show ?thesis by blast
  qed
qed

lemma run_can_finish:
  assumes "run w sched init_state = Some s"
  shows "\<exists>ts s'. run w (sched @ ts) init_state = Some s' \<and> exit_code s' \<noteq> None"
proof -
  note inv = invariants_reachable [OF assms]
  have "\<exists>ts s'. run w ts s = Some s' \<and> exit_code s' \<noteq> None"
  proof (cases "mpc s = MStart")
    case False
    with inv show ?thesis by (intro run_can_finish_from)
  next
    case True
    with inv(1) have e: "exit_code s = None" by (simp add: inv_shape_def)
    with True have s1: "step w TMain s = Some (startup w s)"
      by (simp add: step_def main_step_def)
    from s1 inv have i: "inv_shape (startup w s)" "inv_counters (startup w s)"
      "inv_results w (startup w s)"
      by (blast intro: inv_shape_step inv_counters_step inv_results_step)+
    have m: "mpc (startup w s) \<noteq> MStart"
      by (cases rule: startup_cases [of w s]) simp_all
    from run_can_finish_from [OF i m] obtain ts s'
      where "run w ts (startup w s) = Some s'" "exit_code s' \<noteq> None"
      by blast
    with s1 have "run w (TMain # ts) s = Some s' \<and> exit_code s' \<noteq> None" by simp
    then show ?thesis by blast
  qed
  with assms show ?thesis by (auto simp: run_append)
qed

lemma infos_loaded:
  assumes "inv_shape s" "inv_output w s"
  shows "infos s = [] \<or> infos s = loaded w"
  using assms by (cases "mpc s") (simp_all add: inv_shape_def inv_output_def loaded_def)

lemma run_bounded:
  assumes "run w sched init_state = Some s"
  shows "length sched \<le> 7 * length (loaded w) + 5"
proof -
  from infos_loaded [OF invariants_reachable(1,4) [OF assms]]
  have "length (infos s) \<le> length (loaded w)" by auto
  with run_terminates [OF assms] show ?thesis by simp
qed

text \<open>
  C9, amended.  The process always ends: no schedule is longer than seven steps per
  loaded record plus five, a state that has not ended always has a goroutine that can
  move, and so every run extends to one that has ended.  When it has ended: without the
  directory argument it has printed the usage line and ended with status 0; when the
  loader returns an error it has printed the warnings and that error and ended with
  status 0; when the log file cannot be created it has printed that error and ended
  with status 0; in these three cases nothing was probed.  Otherwise it has ended with
  status 0 after printing the summary as its last line, unless a probe panicked
  (status 2), which needs a lookup answering with neither error nor address.
\<close>

theorem main_exit_status:
  assumes "run w sched init_state = Some s"
  shows "length sched \<le> 7 * length (loaded w) + 5 \<and>
         (exit_code s = None \<longrightarrow> (\<exists>t. step w t s \<noteq> None)) \<and>
         (\<exists>ts s'. run w (sched @ ts) init_state = Some s' \<and> exit_code s' \<noteq> None) \<and>
         (exit_code s \<noteq> None \<longrightarrow>
            (length (Args w) < 2 \<longrightarrow>
               exit_code s = Some 0 \<and> console s = [msg_usage @ newline] \<and> net_log s = []) \<and>
            (\<forall>err. 2 \<le> length (Args w) \<and>
                 fst (parseAllConfigFiles w (Args w ! 1)) = Inl err \<longrightarrow>
               exit_code s = Some 0 \<and> net_log s = [] \<and>
               console s = snd (parseAllConfigFiles w (Args w ! 1)) @ [msg_config_failed err]) \<and>
            (\<forall>recs err. 2 \<le> length (Args w) \<and>
                 fst (parseAllConfigFiles w (Args w ! 1)) = Inr recs \<and>
                 CreateFile w (log_name w) = Some err \<longrightarrow>
               exit_code s = Some 0 \<and> net_log s = [] \<and>
               console s = snd (parseAllConfigFiles w (Args w ! 1)) @ [msg_create_failed err]) \<and>
            (\<forall>recs. 2 \<le> length (Args w) \<and>
                 fst (parseAllConfigFiles w (Args w ! 1)) = Inr recs \<and>
                 CreateFile w (log_name w) = None \<longrightarrow>
               (no_empty_answers w \<longrightarrow> exit_code s = Some 0) \<and>
               (exit_code s = Some 2 \<or>
                exit_code s = Some 0 \<and> mpc s = MReturned \<and>
                last (console s) =
                  summary_text (lib w) (int (length recs)) (successCount s) (failCount s)
                    (TotalElapsed w) (log_name w) @ newline)))"
proof -
  note inv = invariants_reachable [OF assms]
  note ex = exit_code_reachable [OF assms]
  have t1: "length sched \<le> 7 * length (loaded w) + 5"
    using assms by (rule run_bounded)
  have t2: "exit_code s = None \<longrightarrow> (\<exists>t. step w t s \<noteq> None)"
    using progress [OF inv(1,2)] by blast
  have t3: "\<exists>ts s'. run w (sched @ ts) init_state = Some s' \<and> exit_code s' \<noteq> None"
    using assms by (rule run_can_finish)
  have ab: "exit_code s = Some 0 \<and> console s = aborted_console w \<and> net_log s = []"
    if "startup_aborts w" "exit_code s \<noteq> None"
  proof -
    from that(1) inv(4) have "mpc s = MStart \<or> mpc s = MAborted"
      by (cases "mpc s") (simp_all add: inv_output_def)
    with inv(1) that(2) have m: "mpc s = MAborted" by (auto simp: inv_shape_def)
    with inv(1,4) show ?thesis by (simp add: inv_shape_def inv_output_def)
  qed
  have ok: "(no_empty_answers w \<longrightarrow> exit_code s = Some 0) \<and>
            (exit_code s = Some 2 \<or>
             exit_code s = Some 0 \<and> mpc s = MReturned \<and>
             last (console s) =
               summary_text (lib w) (int (length recs)) (successCount s) (failCount s)
                 (TotalElapsed w) (log_name w) @ newline)"
    if n: "\<not> startup_aborts w" and p: "fst (parseAllConfigFiles w (Args w ! 1)) = Inr recs"
      and e: "exit_code s \<noteq> None"
    for recs
  proof -
    from n inv(4) have na: "mpc s \<noteq> MAborted" by (auto simp: inv_output_def)
    with ex e have e2: "exit_code s = Some 2 \<or> exit_code s = Some 0 \<and> mpc s = MReturned"
      by auto
    have "last (console s) =
               summary_text (lib w) (int (length recs)) (successCount s) (failCount s)
                 (TotalElapsed w) (log_name w) @ newline"
      if "mpc s = MReturned"
      using that inv(4) p by (simp add: inv_output_def)
    with e2 no_crash_reachable [OF _ assms] show ?thesis by auto
  qed
  have t4: "exit_code s \<noteq> None \<longrightarrow>
            (length (Args w) < 2 \<longrightarrow>
               exit_code s = Some 0 \<and> console s = [msg_usage @ newline] \<and> net_log s = []) \<and>
            (\<forall>err. 2 \<le> length (Args w) \<and>
                 fst (parseAllConfigFiles w (Args w ! 1)) = Inl err \<longrightarrow>
               exit_code s = Some 0 \<and> net_log s = [] \<and>
               console s = snd (parseAllConfigFiles w (Args w ! 1)) @ [msg_config_failed err]) \<and>
            (\<forall>recs err. 2 \<le> length (Args w) \<and>
                 fst (parseAllConfigFiles w (Args w ! 1)) = Inr recs \<and>
                 CreateFile w (log_name w) = Some err \<longrightarrow>
               exit_code s = Some 0 \<and> net_log s = [] \<and>
               console s = snd (parseAllConfigFiles w (Args w ! 1)) @ [msg_create_failed err]) \<and>
            (\<forall>recs. 2 \<le> length (Args w) \<and>
                 fst (parseAllConfigFiles w (Args w ! 1)) = Inr recs \<and>
                 CreateFile w (log_name w) = None \<longrightarrow>
               (no_empty_answers w \<longrightarrow> exit_code s = Some 0) \<and>
               (exit_code s = Some 2 \<or>
                exit_code s = Some 0 \<and> mpc s = MReturned \<and>
                last (console s) =
                  summary_text (lib w) (int (length recs)) (successCount s) (failCount s)
                    (TotalElapsed w) (log_name w) @ newline))"
  proof
    assume e: "exit_code s \<noteq> None"
    have c1: "length (Args w) < 2 \<longrightarrow>
            exit_code s = Some 0 \<and> console s = [msg_usage @ newline] \<and> net_log s = []"
      using ab e by (simp add: startup_aborts_def aborted_console_def)
    have c2: "\<forall>err. 2 \<le> length (Args w) \<and> fst (parseAllConfigFiles w (Args w ! 1)) = Inl err \<longrightarrow>
            exit_code s = Some 0 \<and> net_log s = [] \<and>
            console s = snd (parseAllConfigFiles w (Args w ! 1)) @ [msg_config_failed err]"
      using ab e by (simp add: startup_aborts_def aborted_console_def)
    have c3: "\<forall>recs err. 2 \<le> length (Args w) \<and>
              fst (parseAllConfigFiles w (Args w ! 1)) = Inr recs \<and>
              CreateFile w (log_name w) = Some err \<longrightarrow>
            exit_code s = Some 0 \<and> net_log s = [] \<and>
            console s = snd (parseAllConfigFiles w (Args w ! 1)) @ [msg_create_failed err]"
      using ab e by (simp add: startup_aborts_def aborted_console_def)
    have c4: "\<forall>recs. 2 \<le> length (Args w) \<and>
              fst (parseAllConfigFiles w (Args w ! 1)) = Inr recs \<and>
              CreateFile w (log_name w) = None \<longrightarrow>
            (no_empty_answers w \<longrightarrow> exit_code s = Some 0) \<and>
            (exit_code s = Some 2 \<or>
             exit_code s = Some 0 \<and> mpc s = MReturned \<and>
             last (console s) =
               summary_text (lib w) (int (length recs)) (successCount s) (failCount s)
                 (TotalElapsed w) (log_name w) @ newline)"
    proof (intro allI impI)
      fix recs
      assume a: "2 \<le> length (Args w) \<and> fst (parseAllConfigFiles w (Args w ! 1)) = Inr recs \<and>
              CreateFile w (log_name w) = None"
      then have "\<not> startup_aborts w" by (simp add: startup_aborts_def)
      from ok [OF this _ e, of recs] a
      show "(no_empty_answers w \<longrightarrow> exit_code s = Some 0) \<and>
            (exit_code s = Some 2 \<or>
             exit_code s = Some 0 \<and> mpc s = MReturned \<and>
             last (console s) =
               summary_text (lib w) (int (length recs)) (successCount s) (failCount s)
                 (TotalElapsed w) (log_name w) @ newline)"
        by blast
    qed
    from c1 c2 c3 c4
    show "(length (Args w) < 2 \<longrightarrow>
               exit_code s = Some 0 \<and> console s = [msg_usage @ newline] \<and> net_log s = []) \<and>
            (\<forall>err. 2 \<le> length (Args w) \<and>
                 fst (parseAllConfigFiles w (Args w ! 1)) = Inl err \<longrightarrow>
               exit_code s = Some 0 \<and> net_log s = [] \<and>
               console s = snd (parseAllConfigFiles w (Args w ! 1)) @ [msg_config_failed err]) \<and>
            (\<forall>recs err. 2 \<le> length (Args w) \<and>
                 fst (parseAllConfigFiles w (Args w ! 1)) = Inr recs \<and>
                 CreateFile w (log_name w) = Some err \<longrightarrow>
               exit_code s = Some 0 \<and> net_log s = [] \<and>
               console s = snd (parseAllConfigFiles w (Args w ! 1)) @ [msg_create_failed err]) \<and>
            (\<forall>recs. 2 \<le> length (Args w) \<and>
                 fst (parseAllConfigFiles w (Args w ! 1)) = Inr recs \<and>
                 CreateFile w (log_name w) = None \<longrightarrow>
               (no_empty_answers w \<longrightarrow> exit_code s = Some 0) \<and>
               (exit_code s = Some 2 \<or>
                exit_code s = Some 0 \<and> mpc s = MReturned \<and>
                last (console s) =
                  summary_text (lib w) (int (length recs)) (successCount s) (failCount s)
                    (TotalElapsed w) (log_name w) @ newline))"
      by (intro conjI)
  qed
  from t1 t2 t3 t4 show ?thesis by (intro conjI)
qed

lemma loaded_small: "loaded world_small = [info_web, info_db]"
  by (simp add: loaded_def world_small_simps parse_small)

lemma no_empty_answers_small: "no_empty_answers world_small"
  by (simp add: no_empty_answers_def world_small_simps env_mixed_def)

theorem main_exit_status_witness:
  "length (Args world_no_args) < 2 \<and>
   run world_no_args [TMain] init_state = Some (startup world_no_args init_state) \<and>
   exit_code (startup world_no_args init_state) = Some 0 \<and>
   console (startup world_no_args init_state) = [msg_usage @ newline] \<and>
   net_log (startup world_no_args init_state) = [] \<and>
   2 \<le> length (Args world_small) \<and>
   fst (parseAllConfigFiles world_small (Args world_small ! 1)) = Inr [info_web, info_db] \<and>
   CreateFile world_small (log_name world_small) = None \<and>
   no_empty_answers world_small \<and>
   length sched_small \<le> 7 * length (loaded world_small) + 5 \<and>
   (\<exists>s. run world_small sched_small init_state = Some s \<and> exit_code s = Some 0 \<and>
        mpc s = MReturned \<and>
        last (console s) =
          summary_text (lib world_small) 2 1 1 (TotalElapsed world_small)
            (log_name world_small) @ newline) \<and>
   (\<exists>t. step world_small t init_state \<noteq> None) \<and>
   (\<exists>ts s'. run world_small ([] @ ts) init_state = Some s' \<and> exit_code s' \<noteq> None)"
proof -
  have a: "length (Args world_no_args) < 2" by (simp add: world_no_args_simps)
  have r: "run world_no_args [TMain] init_state = Some (startup world_no_args init_state)"
    by (rule run_first_step)
  have e: "exit_code (startup world_no_args init_state) \<noteq> None"
    by (simp add: startup_def world_no_args_simps)
  have p: "2 \<le> length (Args world_small) \<and>
     fst (parseAllConfigFiles world_small (Args world_small ! 1)) = Inr [info_web, info_db] \<and>
     CreateFile world_small (log_name world_small) = None"
    by (simp add: world_small_simps parse_small)
  obtain s where s: "run world_small sched_small init_state = Some s" "mpc s = MReturned"
    "exit_code s = Some 0" "successCount s = 1" "failCount s = 1"
    using run_small by blast
  then have n: "exit_code s \<noteq> None" by simp
  have z: "run world_small [] init_state = Some init_state" "exit_code init_state = None"
    by (simp_all add: init_state_def)
  from main_exit_status [OF s(1)] n p s
  have l: "last (console s) =
          summary_text (lib world_small) 2 1 1 (TotalElapsed world_small)
            (log_name world_small) @ newline"
    and b: "length sched_small \<le> 7 * length (loaded world_small) + 5"
    by auto
  from main_exit_status [OF z(1)] z(2)
  have g: "\<exists>t. step world_small t init_state \<noteq> None"
    and f: "\<exists>ts s'. run world_small ([] @ ts) init_state = Some s' \<and> exit_code s' \<noteq> None"
    by blast+
  from main_exit_status [OF r] e a
  have u: "exit_code (startup world_no_args init_state) = Some 0 \<and>
      console (startup world_no_args init_state) = [msg_usage @ newline] \<and>
      net_log (startup world_no_args init_state) = []"
    by blast
  from a r u p no_empty_answers_small b s l g f show ?thesis by blast
qed

end
